theory Spec2Isabelle
  imports Complex_Main "HOL-Library.Log_Nat"
begin

section \<open>Documents and collections\<close>

text \<open>
  Every collection of the document store is a list of documents, each carrying its
  \<open>_id\<close>. \<open>findById\<close> returns the first document with the id, \<open>save\<close> of a fetched
  document replaces that document in place (and inserts a document whose id is new),
  \<open>remove\<close> deletes it, and \<open>exists\<close> scans the collection with a filter.
  An \<open>ObjectId\<close> is a natural number. A handler gets the id of its route already cast
  to an \<open>ObjectId\<close>, and so the ids in a request body that are used for lookups and
  assignments only (the product of an order item, the category of a product body). The
  parent of a category body is compared as a string and is a string here, see
  \<open>id_string\<close> below.
  The records keep the fields that the stock ledger, the order lifecycle and the
  category hierarchy read or write; the other fields of the schemas (prices, texts,
  images, time stamps) are written by none of the handlers below except as copies of
  the request and are left out.
\<close>

type_synonym object_id = nat

subsection \<open>Numbers\<close>

text \<open>
  Stock counts and quantities are JavaScript Numbers, that is IEEE 754 binary64 values.
  A finite Number is the rational it stands for, and \<open><\<close> on Numbers is \<open><\<close> on
  rationals. The sum and the difference of two Numbers are the exact result rounded to
  the nearest binary64 value, ties to the even significand: \<open>round64\<close> divides by the
  unit in the last place of the binade of its argument (53 significant bits, the
  exponent not below that of the subnormals), rounds to an integer and multiplies
  back. The infinities, \<open>NaN\<close> and results of a magnitude from \<open>2 ^ 1024\<close> on are
  outside the model.
\<close>

type_synonym number = rat

definition round_half_even :: "rat \<Rightarrow> int" where
  "round_half_even y =
     (let f = \<lfloor>y\<rfloor>; d = y - of_int f
      in if d < 1 / 2 then f
         else if 1 / 2 < d then f + 1
         else if even f then f else f + 1)"

text \<open>\<open>exponent x\<close> is the \<open>e\<close> with \<open>2 ^ e \<le> x < 2 ^ (e + 1)\<close>, for a positive \<open>x\<close>.\<close>

definition exponent :: "rat \<Rightarrow> int" where
  "exponent x = (if 1 \<le> x then bitlen \<lfloor>x\<rfloor> - 1 else - bitlen (\<lceil>1 / x\<rceil> - 1))"

definition pow2 :: "int \<Rightarrow> rat" where
  "pow2 q = (if 0 \<le> q then 2 ^ nat q else 1 / 2 ^ nat (- q))"

definition round64 :: "rat \<Rightarrow> number" where
  "round64 x =
     (if x = 0 then 0
      else (let u = pow2 (max (exponent \<bar>x\<bar>) (- 1022) - 52)
            in u * of_int (round_half_even (x / u))))"

definition js_add :: "number \<Rightarrow> number \<Rightarrow> number" where
  "js_add x y = round64 (x + y)"

definition js_sub :: "number \<Rightarrow> number \<Rightarrow> number" where
  "js_sub x y = round64 (x - y)"

subsection \<open>Records\<close>

record variant =
  variant_name :: string
  variant_stock :: number

record product =
  product_id :: object_id
  product_category :: object_id
  product_stock :: number
  product_variants :: "variant list"

record order_item =
  item_product :: object_id
  item_variant :: "string option"
  item_quantity :: number

record payment_result =
  payment_id :: "string option"
  payment_status :: "string option"
  payment_update_time :: "string option"
  payment_email_address :: "string option"

record order =
  order_id :: object_id
  order_user :: object_id
  order_orderItems :: "order_item list"
  order_status :: string
  order_isPaid :: bool
  order_isDelivered :: bool
  order_trackingNumber :: "string option"
  order_notes :: "string option"
  order_paymentResult :: "payment_result option"

record category =
  category_id :: object_id
  category_parent :: "object_id option"

record user =
  user_id :: object_id
  user_role :: string

record store =
  products :: "product list"
  orders :: "order list"
  categories :: "category list"

text \<open>
  The errors the handlers throw, named after their messages. \<open>Not_enough_stock\<close>
  carries the available quantity that the message reports. \<open>TypeError\<close> is the
  runtime's own error on a property read of \<open>null\<close> or \<open>undefined\<close>.
  \<open>ValidationError\<close> is a schema validator of the model rejecting a \<open>save\<close>, and
  \<open>CastError\<close> the driver refusing a string that is no \<open>ObjectId\<close>.
\<close>

datatype error =
    No_order_items
  | Product_not_found object_id
  | Variant_not_found string
  | Not_enough_stock number
  | Order_not_found
  | Order_cannot_be_cancelled
  | Not_authorized_to_cancel
  | Category_not_found
  | Category_own_parent
  | Circular_reference
  | Has_subcategories
  | Has_products
  | TypeError
  | ValidationError
  | CastError

text \<open>The error kinds of the specification, as predicates on the thrown error.\<close>

fun NotFound :: "error \<Rightarrow> bool" where
  "NotFound (Product_not_found _) = True"
| "NotFound (Variant_not_found _) = True"
| "NotFound Order_not_found = True"
| "NotFound Category_not_found = True"
| "NotFound _ = False"

fun InsufficientStock :: "error \<Rightarrow> bool" where
  "InsufficientStock (Not_enough_stock _) = True"
| "InsufficientStock _ = False"

fun InvalidHierarchy :: "error \<Rightarrow> bool" where
  "InvalidHierarchy Category_own_parent = True"
| "InvalidHierarchy Circular_reference = True"
| "InvalidHierarchy _ = False"

subsection \<open>The Product collection\<close>

fun Product_findById :: "object_id \<Rightarrow> product list \<Rightarrow> product option" where
  "Product_findById i [] = None"
| "Product_findById i (d # ds) =
     (if product_id d = i then Some d else Product_findById i ds)"

fun Product_save :: "product \<Rightarrow> product list \<Rightarrow> product list" where
  "Product_save p [] = [p]"
| "Product_save p (d # ds) =
     (if product_id d = product_id p then p # ds else d # Product_save p ds)"

definition Product_exists_category :: "object_id \<Rightarrow> product list \<Rightarrow> bool" where
  "Product_exists_category c ps = list_ex (\<lambda>p. product_category p = c) ps"

text \<open>
  \<open>Array.prototype.find\<close> is \<^const>\<open>List.find\<close>; \<open>findIndex\<close> returns the first index
  whose element satisfies the predicate, \<open>None\<close> standing for \<open>-1\<close>.
\<close>

fun findIndex :: "('a \<Rightarrow> bool) \<Rightarrow> 'a list \<Rightarrow> nat option" where
  "findIndex P [] = None"
| "findIndex P (x # xs) =
     (if P x then Some 0 else map_option Suc (findIndex P xs))"

section \<open>Stock ledger: createOrder and cancelOrder\<close>

text \<open>
  \<open>item.variant && item.variant.name\<close>: the item names a variant when the variant
  object is there and its name is a non-empty string.
\<close>

definition variant_given :: "order_item \<Rightarrow> string option" where
  "variant_given item =
     (case item_variant item of
        None \<Rightarrow> None
      | Some n \<Rightarrow> if n = [] then None else Some n)"

text \<open>The first loop of \<open>createOrder\<close>: every item is checked before anything is written.\<close>

fun check_stock :: "product list \<Rightarrow> order_item list \<Rightarrow> error option" where
  "check_stock ps [] = None"
| "check_stock ps (item # items) =
     (case Product_findById (item_product item) ps of
        None \<Rightarrow> Some (Product_not_found (item_product item))
      | Some p \<Rightarrow>
          (case variant_given item of
             Some n \<Rightarrow>
               (case find (\<lambda>v. variant_name v = n) (product_variants p) of
                  None \<Rightarrow> Some (Variant_not_found n)
                | Some v \<Rightarrow>
                    if variant_stock v < item_quantity item
                    then Some (Not_enough_stock (variant_stock v))
                    else check_stock ps items)
           | None \<Rightarrow>
               if product_stock p < item_quantity item
               then Some (Not_enough_stock (product_stock p))
               else check_stock ps items))"

text \<open>
  The body of the second loop of \<open>createOrder\<close> on the fetched product:
  \<open>product.variants[variantIndex].stock -= item.quantity\<close> when the item names a variant
  that \<open>findIndex\<close> finds, \<open>product.stock -= item.quantity\<close> when it names none. The
  subtraction is that of Numbers.
\<close>

definition decrement_stock :: "product \<Rightarrow> order_item \<Rightarrow> product" where
  "decrement_stock p item =
     (case variant_given item of
        Some n \<Rightarrow>
          (case findIndex (\<lambda>v. variant_name v = n) (product_variants p) of
             None \<Rightarrow> p
           | Some k \<Rightarrow>
               p\<lparr>product_variants := (product_variants p)
                    [k := (product_variants p ! k)
                       \<lparr>variant_stock :=
                          js_sub (variant_stock (product_variants p ! k))
                            (item_quantity item)\<rparr>]\<rparr>)
      | None \<Rightarrow> p\<lparr>product_stock := js_sub (product_stock p) (item_quantity item)\<rparr>)"

text \<open>
  The second loop. It fetches each product again, so it sees the writes of the
  items before; a product that is gone makes \<open>product.variants\<close> or \<open>product.stock\<close>
  throw, with the items before already written.
\<close>

fun update_stock :: "product list \<Rightarrow> order_item list \<Rightarrow> error option \<times> product list" where
  "update_stock ps [] = (None, ps)"
| "update_stock ps (item # items) =
     (case Product_findById (item_product item) ps of
        None \<Rightarrow> (Some TypeError, ps)
      | Some p \<Rightarrow> update_stock (Product_save (decrement_stock p item) ps) items)"

text \<open>
  Modelled from the spec: the order model (\<open>orderModel\<close>) is not among the sources. The
  specification's data model gives an order a status that is \<open>pending\<close> at creation, a
  paid flag and a delivered flag; \<open>new Order({...})\<close> copies the items and the user from
  the request and takes the rest from those defaults. The id is the fresh \<open>ObjectId\<close>
  the driver generates, a parameter here.
\<close>

definition new_Order :: "object_id \<Rightarrow> object_id \<Rightarrow> order_item list \<Rightarrow> order" where
  "new_Order new_id uid orderItems =
     \<lparr>order_id = new_id, order_user = uid, order_orderItems = orderItems,
      order_status = ''pending'', order_isPaid = False, order_isDelivered = False,
      order_trackingNumber = None, order_notes = None, order_paymentResult = None\<rparr>"

subsection \<open>The Order collection\<close>

fun Order_findById :: "object_id \<Rightarrow> order list \<Rightarrow> order option" where
  "Order_findById i [] = None"
| "Order_findById i (d # ds) =
     (if order_id d = i then Some d else Order_findById i ds)"

fun Order_save :: "order \<Rightarrow> order list \<Rightarrow> order list" where
  "Order_save x [] = [x]"
| "Order_save x (d # ds) =
     (if order_id d = order_id x then x # ds else d # Order_save x ds)"

text \<open>
  A handler returns what it sends or throws, with the store it leaves behind.
  Handlers run one at a time; requests that interleave are outside this model. The
  request body of \<open>createOrder\<close> is its item list (the price and address fields are
  copied into the order and touch nothing else).
\<close>

definition createOrder ::
  "store \<Rightarrow> user \<Rightarrow> object_id \<Rightarrow> order_item list \<Rightarrow> (error + order) \<times> store" where
  "createOrder st req_user new_id orderItems =
     (if orderItems = [] then (Inl No_order_items, st)
      else
        (case check_stock (products st) orderItems of
           Some e \<Rightarrow> (Inl e, st)
         | None \<Rightarrow>
             (let createdOrder = new_Order new_id (user_id req_user) orderItems;
                  st1 = st\<lparr>orders := Order_save createdOrder (orders st)\<rparr>
              in case update_stock (products st1) orderItems of
                   (Some e, ps) \<Rightarrow> (Inl e, st1\<lparr>products := ps\<rparr>)
                 | (None, ps) \<Rightarrow> (Inr createdOrder, st1\<lparr>products := ps\<rparr>))))"

text \<open>
  The loop body of \<open>cancelOrder\<close>: the same resolution with \<open>+=\<close>, the addition of
  Numbers.
\<close>

definition restore_stock :: "product \<Rightarrow> order_item \<Rightarrow> product" where
  "restore_stock p item =
     (case variant_given item of
        Some n \<Rightarrow>
          (case findIndex (\<lambda>v. variant_name v = n) (product_variants p) of
             None \<Rightarrow> p
           | Some k \<Rightarrow>
               p\<lparr>product_variants := (product_variants p)
                    [k := (product_variants p ! k)
                       \<lparr>variant_stock :=
                          js_add (variant_stock (product_variants p ! k))
                            (item_quantity item)\<rparr>]\<rparr>)
      | None \<Rightarrow> p\<lparr>product_stock := js_add (product_stock p) (item_quantity item)\<rparr>)"

text \<open>The restoration loop skips an item whose product is gone (\<open>if (product)\<close>).\<close>

fun restore_loop :: "product list \<Rightarrow> order_item list \<Rightarrow> product list" where
  "restore_loop ps [] = ps"
| "restore_loop ps (item # items) =
     (case Product_findById (item_product item) ps of
        None \<Rightarrow> restore_loop ps items
      | Some p \<Rightarrow> restore_loop (Product_save (restore_stock p item) ps) items)"

definition cancelOrder :: "store \<Rightarrow> user \<Rightarrow> object_id \<Rightarrow> (error + order) \<times> store" where
  "cancelOrder st req_user oid =
     (case Order_findById oid (orders st) of
        None \<Rightarrow> (Inl Order_not_found, st)
      | Some ord \<Rightarrow>
          if order_status ord \<noteq> ''pending'' \<and> order_status ord \<noteq> ''processing''
          then (Inl Order_cannot_be_cancelled, st)
          else if order_user ord \<noteq> user_id req_user \<and> user_role req_user \<noteq> ''admin''
          then (Inl Not_authorized_to_cancel, st)
          else
            (let ord1 = ord\<lparr>order_status := ''cancelled''\<rparr>;
                 ps = restore_loop (products st) (order_orderItems ord1)
             in (Inr ord1, st\<lparr>products := ps, orders := Order_save ord1 (orders st)\<rparr>)))"

section \<open>Order lifecycle\<close>

text \<open>
  A string of a request body is \<open>None\<close> when the field is absent; \<open>a || b\<close> and
  \<open>if (a)\<close> take an absent and an empty string as false.
\<close>

definition truthy :: "string option \<Rightarrow> bool" where
  "truthy a = (case a of None \<Rightarrow> False | Some s \<Rightarrow> s \<noteq> [])"

record pay_body =
  body_id :: "string option"
  body_status :: "string option"
  body_update_time :: "string option"
  body_payer :: "string option option"

text \<open>
  \<open>body_payer\<close> is \<open>req.body.payer\<close>, holding its \<open>email_address\<close>; the read
  \<open>req.body.payer.email_address\<close> throws when the payer is absent, before the save.
\<close>

definition updateOrderToPaid :: "store \<Rightarrow> object_id \<Rightarrow> pay_body \<Rightarrow> (error + order) \<times> store" where
  "updateOrderToPaid st oid body =
     (case Order_findById oid (orders st) of
        None \<Rightarrow> (Inl Order_not_found, st)
      | Some ord \<Rightarrow>
          (case body_payer body of
             None \<Rightarrow> (Inl TypeError, st)
           | Some email \<Rightarrow>
               (let ord1 = ord\<lparr>order_isPaid := True, order_status := ''processing'',
                                order_paymentResult := Some
                                  \<lparr>payment_id = body_id body, payment_status = body_status body,
                                   payment_update_time = body_update_time body,
                                   payment_email_address = email\<rparr>\<rparr>
                in (Inr ord1, st\<lparr>orders := Order_save ord1 (orders st)\<rparr>))))"

definition updateOrderToDelivered ::
  "store \<Rightarrow> object_id \<Rightarrow> string option \<Rightarrow> (error + order) \<times> store" where
  "updateOrderToDelivered st oid trackingNumber =
     (case Order_findById oid (orders st) of
        None \<Rightarrow> (Inl Order_not_found, st)
      | Some ord \<Rightarrow>
          (let ord1 = ord\<lparr>order_isDelivered := True, order_status := ''delivered'',
                           order_trackingNumber :=
                             (if truthy trackingNumber then trackingNumber
                              else order_trackingNumber ord)\<rparr>
           in (Inr ord1, st\<lparr>orders := Order_save ord1 (orders st)\<rparr>)))"

text \<open>
  \<open>updateOrderStatus\<close> stores the status of the body as it comes. Whether the order
  schema restricts the strings it accepts is not visible in the sources.
\<close>

definition updateOrderStatus ::
  "store \<Rightarrow> object_id \<Rightarrow> string option \<Rightarrow> string option \<Rightarrow> string option
     \<Rightarrow> (error + order) \<times> store" where
  "updateOrderStatus st oid status trackingNumber notes =
     (case Order_findById oid (orders st) of
        None \<Rightarrow> (Inl Order_not_found, st)
      | Some ord \<Rightarrow>
          (let ord1 = ord\<lparr>order_status :=
                             (case status of
                                None \<Rightarrow> order_status ord
                              | Some s \<Rightarrow> if s = [] then order_status ord else s)\<rparr>;
               ord2 = (if truthy trackingNumber
                       then ord1\<lparr>order_trackingNumber := trackingNumber\<rparr> else ord1);
               ord3 = (if truthy notes then ord2\<lparr>order_notes := notes\<rparr> else ord2);
               ord4 = (if status = Some ''delivered'' \<and> \<not> order_isDelivered ord3
                       then ord3\<lparr>order_isDelivered := True\<rparr> else ord3)
           in (Inr ord4, st\<lparr>orders := Order_save ord4 (orders st)\<rparr>)))"

section \<open>Product update\<close>

text \<open>
  The fields of the body of \<open>updateProduct\<close> that reach a stock counter or the category
  reference: \<open>stock !== undefined ? stock : product.stock\<close>, \<open>if (variants)\<close> (an array
  is true even when empty) and \<open>category || product.category\<close> (an id is true). The
  product schema gives \<open>stock\<close> no lower bound. Stored documents satisfy their schema;
  of what the body brings in, the schema requires a name of every variant, so a save
  with a variant of empty name in the body is rejected.
\<close>

record product_body =
  body_category :: "object_id option"
  body_stock :: "number option"
  body_variants :: "variant list option"


section \<open>Category hierarchy guard\<close>

subsection \<open>The Category collection\<close>

fun Category_findById :: "object_id \<Rightarrow> category list \<Rightarrow> category option" where
  "Category_findById i [] = None"
| "Category_findById i (d # ds) =
     (if category_id d = i then Some d else Category_findById i ds)"

fun Category_save :: "category \<Rightarrow> category list \<Rightarrow> category list" where
  "Category_save c [] = [c]"
| "Category_save c (d # ds) =
     (if category_id d = category_id c then c # ds else d # Category_save c ds)"

fun Category_remove :: "category \<Rightarrow> category list \<Rightarrow> category list" where
  "Category_remove c [] = []"
| "Category_remove c (d # ds) =
     (if category_id d = category_id c then ds else d # Category_remove c ds)"

definition Category_exists_parent :: "object_id \<Rightarrow> category list \<Rightarrow> bool" where
  "Category_exists_parent i cs = list_ex (\<lambda>c. category_parent c = Some i) cs"

text \<open>
  \<open>found ? found.parent : null\<close>: the parent reference of the category with the id,
  \<open>null\<close> when no category has the id.
\<close>

definition parent_of :: "category list \<Rightarrow> object_id \<Rightarrow> object_id option" where
  "parent_of cs i =
     (case Category_findById i cs of None \<Rightarrow> None | Some c \<Rightarrow> category_parent c)"

text \<open>
  The \<open>while (parentId)\<close> loop of \<open>updateCategory\<close>. It returns \<open>True\<close> when it throws
  the circular reference error, \<open>False\<close> when it leaves the loop at a \<open>null\<close> parent, and
  has no value when it runs forever.
\<close>

partial_function (option) ancestor_walk ::
  "category list \<Rightarrow> object_id \<Rightarrow> object_id option \<Rightarrow> bool option" where
  "ancestor_walk cs target parentId =
     (case parentId of
        None \<Rightarrow> Some False
      | Some a \<Rightarrow>
          if a = target then Some True
          else ancestor_walk cs target (parent_of cs a))"

text \<open>
  An id in a request body is a string. What the handler does with it depends on the
  \<open>ObjectId\<close> the driver casts it to and on whether it is the very string that
  \<open>toString()\<close> gives for that id (its 24 hex digits in lower case): \<open>Canonical i\<close> is
  that string, \<open>Respelled i\<close> is another string that the driver casts to \<open>i\<close> (the same
  digits with a letter in upper case, say), and \<open>Malformed\<close> is a string that it casts
  to no id. Stored ids print canonically.
\<close>

datatype id_string = Canonical object_id | Respelled object_id | Malformed

fun cast_id :: "id_string \<Rightarrow> object_id option" where
  "cast_id (Canonical i) = Some i"
| "cast_id (Respelled i) = Some i"
| "cast_id Malformed = None"

definition toString :: "object_id \<Rightarrow> id_string" where
  "toString i = Canonical i"

text \<open>
  The \<open>parent\<close> field of the body of \<open>updateCategory\<close>: absent, \<open>null\<close>, or a non-empty
  string. The other fields of the body (name, description, image, icon, featured,
  order) do not reach the parent reference and are left out, as they are of the
  category record. The own-parent test compares strings,
  \<open>parent.toString() === category._id.toString()\<close>; \<open>Category.findById(parent)\<close> casts
  the string and throws when it is malformed; the assignment \<open>category.parent = parent\<close>
  stores the id the string casts to. The handler has no value when its loop runs
  forever.
\<close>

datatype parent_field = Undefined | Null | Str id_string

definition updateCategory ::
  "store \<Rightarrow> object_id \<Rightarrow> parent_field \<Rightarrow> ((error + category) \<times> store) option" where
  "updateCategory st cid parent =
     (case Category_findById cid (categories st) of
        None \<Rightarrow> Some (Inl Category_not_found, st)
      | Some c \<Rightarrow>
          (let persist = (\<lambda>new_parent.
                 (let c1 = c\<lparr>category_parent := new_parent\<rparr>
                  in (Inr c1, st\<lparr>categories := Category_save c1 (categories st)\<rparr>)))
           in case parent of
                Undefined \<Rightarrow> Some (persist (category_parent c))
              | Null \<Rightarrow> Some (persist None)
              | Str s \<Rightarrow>
                  if s = toString (category_id c) then Some (Inl Category_own_parent, st)
                  else
                    (case cast_id s of
                       None \<Rightarrow> Some (Inl CastError, st)
                     | Some p \<Rightarrow>
                         (case ancestor_walk (categories st) (category_id c)
                                 (parent_of (categories st) p) of
                            None \<Rightarrow> None
                          | Some True \<Rightarrow> Some (Inl Circular_reference, st)
                          | Some False \<Rightarrow> Some (persist (Some p))))))"

definition deleteCategory :: "store \<Rightarrow> object_id \<Rightarrow> (error + unit) \<times> store" where
  "deleteCategory st cid =
     (case Category_findById cid (categories st) of
        None \<Rightarrow> (Inl Category_not_found, st)
      | Some c \<Rightarrow>
          if Category_exists_parent (category_id c) (categories st)
          then (Inl Has_subcategories, st)
          else if Product_exists_category (category_id c) (products st)
          then (Inl Has_products, st)
          else (Inr (), st\<lparr>categories := Category_remove c (categories st)\<rparr>))"

section \<open>Observations and auxiliary functions\<close>

text \<open>
  Both loop bodies apply a function to the resolved counter of the product:
  \<open>decrement_stock\<close> the subtraction of the quantity and \<open>restore_stock\<close> its addition.
\<close>

definition map_counter :: "(number \<Rightarrow> number) \<Rightarrow> order_item \<Rightarrow> product \<Rightarrow> product" where
  "map_counter f item p =
     (case variant_given item of
        Some n \<Rightarrow>
          (case findIndex (\<lambda>v. variant_name v = n) (product_variants p) of
             None \<Rightarrow> p
           | Some k \<Rightarrow>
               p\<lparr>product_variants := (product_variants p)
                    [k := (product_variants p ! k)
                       \<lparr>variant_stock := f (variant_stock (product_variants p ! k))\<rparr>]\<rparr>)
      | None \<Rightarrow> p\<lparr>product_stock := f (product_stock p)\<rparr>)"

text \<open>
  \<open>update_first i f\<close> rewrites the first document with id \<open>i\<close>, which is what a
  \<open>findById\<close> followed by a \<open>save\<close> of the changed document does, and nothing when no
  document has the id. \<open>apply_item f item\<close> is one pass of a loop over the products.
\<close>

fun update_first :: "object_id \<Rightarrow> (product \<Rightarrow> product) \<Rightarrow> product list \<Rightarrow> product list" where
  "update_first i f [] = []"
| "update_first i f (d # ds) =
     (if product_id d = i then f d # ds else d # update_first i f ds)"

definition apply_item :: "(number \<Rightarrow> number) \<Rightarrow> order_item \<Rightarrow> product list \<Rightarrow> product list" where
  "apply_item f item ps = update_first (item_product item) (map_counter f item) ps"

text \<open>\<open>bump k f\<close> applies \<open>f\<close> to the stock of the variant at index \<open>k\<close>.\<close>

definition bump :: "nat \<Rightarrow> (number \<Rightarrow> number) \<Rightarrow> variant list \<Rightarrow> variant list" where
  "bump k f vs = vs[k := (vs ! k)\<lparr>variant_stock := f (variant_stock (vs ! k))\<rparr>]"

text \<open>
  The passes of the two loops, and the loops as folds over the items: \<open>dec_item\<close> and
  \<open>inc_item\<close> are the passes of \<open>createOrder\<close> and of \<open>cancelOrder\<close> with the
  arithmetic of Numbers. \<open>shift_item a\<close> adds \<open>a\<close> to the counter without rounding;
  \<open>reserve_all\<close> and \<open>release_all\<close> are the two loops without rounding, with which the
  loops of the handlers are compared.
\<close>

definition dec_item :: "order_item \<Rightarrow> product list \<Rightarrow> product list" where
  "dec_item item ps = apply_item (\<lambda>s. js_sub s (item_quantity item)) item ps"

definition inc_item :: "order_item \<Rightarrow> product list \<Rightarrow> product list" where
  "inc_item item ps = apply_item (\<lambda>s. js_add s (item_quantity item)) item ps"

definition shift_item :: "rat \<Rightarrow> order_item \<Rightarrow> product list \<Rightarrow> product list" where
  "shift_item a item ps = apply_item (\<lambda>s. s + a) item ps"

definition reserve_all :: "order_item list \<Rightarrow> product list \<Rightarrow> product list" where
  "reserve_all items ps = fold (\<lambda>i. shift_item (- item_quantity i) i) items ps"

definition release_all :: "order_item list \<Rightarrow> product list \<Rightarrow> product list" where
  "release_all items ps = fold (\<lambda>i. shift_item (item_quantity i) i) items ps"

text \<open>\<open>stored ps i\<close>: the product of item \<open>i\<close> is in the collection.\<close>

definition stored :: "product list \<Rightarrow> order_item \<Rightarrow> bool" where
  "stored ps i = (Product_findById (item_product i) ps \<noteq> None)"

text \<open>
  The stock counters, as the specification speaks of them. An item resolves to the
  counter \<open>(product, None)\<close>, the stock of the product, when it names no variant, and to
  \<open>(product, Some n)\<close>, the stock of the first variant named \<open>n\<close>, when it names one.
  \<open>counter_stock\<close> reads a counter, with \<open>None\<close> when the product or the variant does
  not exist; \<open>available\<close> is the counter an item resolves to.
\<close>

definition counter_of :: "order_item \<Rightarrow> object_id \<times> string option" where
  "counter_of item = (item_product item, variant_given item)"

fun stock_in :: "product \<Rightarrow> string option \<Rightarrow> number option" where
  "stock_in p None = Some (product_stock p)"
| "stock_in p (Some n) =
     map_option variant_stock (find (\<lambda>v. variant_name v = n) (product_variants p))"

definition counter_stock :: "product list \<Rightarrow> object_id \<times> string option \<Rightarrow> number option" where
  "counter_stock ps c =
     (case Product_findById (fst c) ps of
        None \<Rightarrow> None
      | Some p \<Rightarrow> stock_in p (snd c))"

definition available :: "product list \<Rightarrow> order_item \<Rightarrow> number option" where
  "available ps item = counter_stock ps (counter_of item)"

text \<open>
  \<open>in_stock\<close>: the item resolves and its quantity is at most the available stock;
  \<open>exceeds_stock\<close>: it resolves and its quantity exceeds the available stock.
\<close>

definition in_stock :: "product list \<Rightarrow> order_item \<Rightarrow> bool" where
  "in_stock ps item =
     (case available ps item of None \<Rightarrow> False | Some s \<Rightarrow> item_quantity item \<le> s)"

definition exceeds_stock :: "product list \<Rightarrow> order_item \<Rightarrow> bool" where
  "exceeds_stock ps item =
     (case available ps item of None \<Rightarrow> False | Some s \<Rightarrow> s < item_quantity item)"

text \<open>
  A safe integer is a Number that \<open>Number.isSafeInteger\<close> accepts: an integer of
  magnitude at most \<open>2 ^ 53 - 1\<close>. An item is safe in a store when its quantity is a safe
  integer that is not negative and the counter it resolves to holds a safe integer.
  \<open>total_on c items\<close> is the sum of the quantities of the items that resolve to the
  counter \<open>c\<close>.
\<close>

definition is_integer :: "number \<Rightarrow> bool" where
  "is_integer x = (of_int \<lfloor>x\<rfloor> = x)"

definition safe_integer :: "number \<Rightarrow> bool" where
  "safe_integer x = (is_integer x \<and> \<bar>x\<bar> \<le> 9007199254740991)"

definition safe_item :: "product list \<Rightarrow> order_item \<Rightarrow> bool" where
  "safe_item ps item =
     (safe_integer (item_quantity item) \<and> 0 \<le> item_quantity item
      \<and> (case available ps item of None \<Rightarrow> True | Some s \<Rightarrow> safe_integer s))"

definition total_on :: "object_id \<times> string option \<Rightarrow> order_item list \<Rightarrow> number" where
  "total_on c items = sum_list (map item_quantity (filter (\<lambda>j. counter_of j = c) items))"

text \<open>
  \<open>round_item sg\<close> is a pass with the rounded sum, \<open>sg\<close> being \<open>1\<close> for the addition and
  \<open>- 1\<close> for the subtraction of the quantity. \<open>exact_run sg ps items\<close> says that the
  loop over \<open>items\<close> from \<open>ps\<close> meets only integers of magnitude at most \<open>2 ^ 53\<close>,
  the \<open>exact_limit\<close>.
\<close>

definition round_item :: "rat \<Rightarrow> order_item \<Rightarrow> product list \<Rightarrow> product list" where
  "round_item sg item ps = apply_item (\<lambda>s. round64 (s + sg * item_quantity item)) item ps"

definition exact_limit :: rat where
  "exact_limit = 2 ^ 53"

definition exact_run :: "rat \<Rightarrow> product list \<Rightarrow> order_item list \<Rightarrow> bool" where
  "exact_run sg ps items =
     (\<forall>i \<in> set items. is_integer (item_quantity i) \<and> 0 \<le> item_quantity i
        \<and> (\<forall>s. available ps i = Some s \<longrightarrow>
              is_integer s \<and> \<bar>s\<bar> \<le> exact_limit
              \<and> \<bar>s + sg * total_on (counter_of i) items\<bar> \<le> exact_limit))"

text \<open>
  A store for the examples: product 1 with stock 5 and a variant \<open>Red\<close> with stock 3,
  product 2 with stock 4, and the categories 10 (root), 11 (child of 10), 12 (child of
  11) and 13 (root). The depot holds one product whose stock, \<open>2 ^ 53 + 2\<close>, is a Number
  beyond the safe integers.
\<close>

definition shop :: store where
  "shop = \<lparr>products =
             [\<lparr>product_id = 1, product_category = 10, product_stock = 5,
               product_variants = [\<lparr>variant_name = ''Red'', variant_stock = 3\<rparr>]\<rparr>,
              \<lparr>product_id = 2, product_category = 12, product_stock = 4,
               product_variants = []\<rparr>],
           orders = [],
           categories =
             [\<lparr>category_id = 10, category_parent = None\<rparr>,
              \<lparr>category_id = 11, category_parent = Some 10\<rparr>,
              \<lparr>category_id = 12, category_parent = Some 11\<rparr>,
              \<lparr>category_id = 13, category_parent = None\<rparr>]\<rparr>"

definition depot :: store where
  "depot = \<lparr>products =
              [\<lparr>product_id = 3, product_category = 10, product_stock = 9007199254740994,
                product_variants = []\<rparr>],
            orders = [], categories = []\<rparr>"

definition customer :: user where
  "customer = \<lparr>user_id = 100, user_role = ''user''\<rparr>"

definition red3 :: order_item where
  "red3 = \<lparr>item_product = 1, item_variant = Some ''Red'', item_quantity = 3\<rparr>"

definition red1 :: order_item where
  "red1 = \<lparr>item_product = 1, item_variant = Some ''Red'', item_quantity = 1\<rparr>"

definition main2 :: order_item where
  "main2 = \<lparr>item_product = 1, item_variant = None, item_quantity = 2\<rparr>"

definition plain3 :: order_item where
  "plain3 = \<lparr>item_product = 2, item_variant = None, item_quantity = 3\<rparr>"

definition ghost1 :: order_item where
  "ghost1 = \<lparr>item_product = 7, item_variant = None, item_quantity = 1\<rparr>"

definition plain9 :: order_item where
  "plain9 = \<lparr>item_product = 2, item_variant = None, item_quantity = 9\<rparr>"

definition unit3 :: order_item where
  "unit3 = \<lparr>item_product = 3, item_variant = None, item_quantity = 1\<rparr>"

text \<open>
  The stock invariant: the stock of every product and of every variant is at least
  zero. \<open>body_ok\<close> says the same of the numbers in a body of \<open>updateProduct\<close>, and
  \<open>quantities_ok\<close> that the items of a stored order have no negative quantity.
\<close>

definition product_ok :: "product \<Rightarrow> bool" where
  "product_ok p =
     (0 \<le> product_stock p \<and> list_all (\<lambda>v. 0 \<le> variant_stock v) (product_variants p))"

definition stock_ok :: "product list \<Rightarrow> bool" where
  "stock_ok ps = list_all product_ok ps"

definition body_ok :: "product_body \<Rightarrow> bool" where
  "body_ok body =
     ((case body_stock body of Some s \<Rightarrow> 0 \<le> s | None \<Rightarrow> True)
      \<and> (case body_variants body of
            Some vs \<Rightarrow> list_all (\<lambda>v. 0 \<le> variant_stock v) vs
          | None \<Rightarrow> True))"

definition quantities_ok :: "order list \<Rightarrow> object_id \<Rightarrow> bool" where
  "quantities_ok os oid =
     (case Order_findById oid os of
        None \<Rightarrow> True
      | Some ord \<Rightarrow> list_all (\<lambda>i. 0 \<le> item_quantity i) (order_orderItems ord))"

definition negative_stock :: product_body where
  "negative_stock = \<lparr>body_category = None, body_stock = Some (- 1), body_variants = None\<rparr>"

definition restock :: product_body where
  "restock = \<lparr>body_category = None, body_stock = Some 8,
              body_variants = Some [\<lparr>variant_name = ''Blue'', variant_stock = 2\<rparr>]\<rparr>"

definition nameless :: product_body where
  "nameless = \<lparr>body_category = None, body_stock = Some (- 1),
               body_variants = Some [\<lparr>variant_name = [], variant_stock = 2\<rparr>]\<rparr>"

text \<open>
  The example store after an order of three \<open>Red\<close> of product 1 and three of product
  2, and after the cancellation of that order.
\<close>

definition shop_ordered :: store where
  "shop_ordered = snd (createOrder shop customer 500 [red3, plain3])"

definition shop_cancelled :: store where
  "shop_cancelled = snd (cancelOrder shop_ordered customer 500)"

definition payment :: pay_body where
  "payment = \<lparr>body_id = Some ''PAY-1'', body_status = Some ''COMPLETED'',
              body_update_time = Some ''2024-01-01'', body_payer = Some (Some ''a@b.c'')\<rparr>"

definition no_payer :: pay_body where
  "no_payer = \<lparr>body_id = Some ''PAY-1'', body_status = Some ''COMPLETED'',
               body_update_time = Some ''2024-01-01'', body_payer = None\<rparr>"

text \<open>
  \<open>cancellable\<close> is the status test of \<open>cancelOrder\<close> and \<open>may_cancel\<close> its test of the
  caller; \<open>status_of\<close> reads the stored status of an order. \<open>shop_repaid\<close> is the example
  store after the cancelled order has been marked paid.
\<close>

definition cancellable :: "order \<Rightarrow> bool" where
  "cancellable ord = (order_status ord = ''pending'' \<or> order_status ord = ''processing'')"

definition may_cancel :: "user \<Rightarrow> order \<Rightarrow> bool" where
  "may_cancel u ord = (order_user ord = user_id u \<or> user_role u = ''admin'')"

definition status_of :: "store \<Rightarrow> object_id \<Rightarrow> string option" where
  "status_of st oid = map_option order_status (Order_findById oid (orders st))"

definition shop_repaid :: store where
  "shop_repaid = snd (updateOrderToPaid shop_cancelled 500 payment)"

text \<open>
  The parent graph of a category collection: \<open>(a, b)\<close> is an edge when \<open>a\<close> is the
  parent reference of the category with id \<open>b\<close>. The ancestors of \<open>b\<close> are the ids
  reached from \<open>b\<close> by one or more parent references.
\<close>

definition parent_rel :: "category list \<Rightarrow> (object_id \<times> object_id) set" where
  "parent_rel cs = {(a, b). parent_of cs b = Some a}"

definition ancestors :: "category list \<Rightarrow> object_id \<Rightarrow> object_id set" where
  "ancestors cs b = {a. (a, b) \<in> (parent_rel cs)\<^sup>+}"

text \<open>
  The walk with a bound on its hops: each pass through the loop body that fetches the
  next parent takes one unit, and \<open>None\<close> means the units ran out. \<open>depth\<close> is the
  bound that the ancestors of the start give.
\<close>

fun walk_fuel :: "nat \<Rightarrow> category list \<Rightarrow> object_id \<Rightarrow> object_id option \<Rightarrow> bool option" where
  "walk_fuel n cs target None = Some False"
| "walk_fuel n cs target (Some a) =
     (if a = target then Some True
      else (case n of
              0 \<Rightarrow> None
            | Suc m \<Rightarrow> walk_fuel m cs target (parent_of cs a)))"

definition depth :: "category list \<Rightarrow> object_id option \<Rightarrow> nat" where
  "depth cs parentId = (case parentId of None \<Rightarrow> 0 | Some a \<Rightarrow> Suc (card (ancestors cs a)))"

text \<open>\<open>updateCategory\<close> returned, and what it threw is one of the two hierarchy errors.\<close>

definition hierarchy_error :: "((error + category) \<times> store) option \<Rightarrow> bool" where
  "hierarchy_error res =
     (case res of
        Some (Inl e, _) \<Rightarrow> InvalidHierarchy e
      | _ \<Rightarrow> False)"

section \<open>Properties\<close>

lemma decrement_stock_map:
  "decrement_stock p item = map_counter (\<lambda>s. js_sub s (item_quantity item)) item p"
  by (simp add: decrement_stock_def map_counter_def split: option.splits)

lemma restore_stock_map:
  "restore_stock p item = map_counter (\<lambda>s. js_add s (item_quantity item)) item p"
  by (simp add: restore_stock_def map_counter_def split: option.splits)

lemma findIndex_Some: "findIndex P xs = Some k \<Longrightarrow> k < length xs \<and> P (xs ! k)"
  by (induction xs arbitrary: k) (auto split: if_splits)

lemma findIndex_cong_map: "map P xs = map P ys \<Longrightarrow> findIndex P xs = findIndex P ys"
proof (induction xs arbitrary: ys)
  case Nil
  then show ?case by simp
next
  case (Cons x xs)
  then obtain y ys' where "ys = y # ys'" by (cases ys) auto
  with Cons show ?case by auto
qed

lemma map_name_bump [simp]: "map variant_name (bump k f vs) = map variant_name vs"
proof (cases "k < length vs")
  case True
  then show ?thesis by (simp add: bump_def map_update list_update_same_conv)
next
  case False
  then show ?thesis by (simp add: bump_def list_update_beyond)
qed

lemma findIndex_bump [simp]:
  "findIndex (\<lambda>v. variant_name v = n) (bump k f vs) = findIndex (\<lambda>v. variant_name v = n) vs"
proof (rule findIndex_cong_map)
  show "map (\<lambda>v. variant_name v = n) (bump k f vs) = map (\<lambda>v. variant_name v = n) vs"
  proof (cases "k < length vs")
    case True
    then show ?thesis by (simp add: bump_def map_update list_update_same_conv)
  next
    case False
    then show ?thesis by (simp add: bump_def list_update_beyond)
  qed
qed

lemma bump_commute:
  assumes "\<And>s. f (g s) = g (f s)"
  shows "bump k f (bump l g vs) = bump l g (bump k f vs)"
proof (cases "k < length vs \<and> l < length vs")
  case True
  then show ?thesis by (cases "k = l") (simp_all add: bump_def list_update_swap assms)
next
  case False
  then show ?thesis by (auto simp: bump_def list_update_beyond not_less)
qed

lemma bump_inverse:
  assumes "\<And>s. f (g s) = s"
  shows "bump k f (bump k g vs) = vs"
proof (cases "k < length vs")
  case True
  then show ?thesis by (simp add: bump_def list_update_same_conv assms)
next
  case False
  then show ?thesis by (simp add: bump_def list_update_beyond)
qed

lemma map_counter_bump:
  "map_counter f item p =
     (case variant_given item of
        Some n \<Rightarrow>
          (case findIndex (\<lambda>v. variant_name v = n) (product_variants p) of
             None \<Rightarrow> p
           | Some k \<Rightarrow> p\<lparr>product_variants := bump k f (product_variants p)\<rparr>)
      | None \<Rightarrow> p\<lparr>product_stock := f (product_stock p)\<rparr>)"
  by (simp add: map_counter_def bump_def split: option.splits)

lemma map_counter_id [simp]: "product_id (map_counter f item p) = product_id p"
  by (simp add: map_counter_bump split: option.splits)

lemma map_counter_category [simp]:
  "product_category (map_counter f item p) = product_category p"
  by (simp add: map_counter_bump split: option.splits)

lemma map_counter_commute:
  assumes "\<And>s. f (g s) = g (f s)"
  shows "map_counter f i (map_counter g j p) = map_counter g j (map_counter f i p)"
  by (simp add: map_counter_bump bump_commute[of f g] assms split: option.splits)

lemma map_counter_inverse:
  assumes "\<And>s. f (g s) = s"
  shows "map_counter f i (map_counter g i p) = p"
  by (simp add: map_counter_bump bump_inverse[of f g] assms split: option.splits)

lemma Product_findById_id: "Product_findById i ps = Some p \<Longrightarrow> product_id p = i"
  by (induction ps) (auto split: if_splits)

lemma Product_save_fetched:
  "Product_findById i ps = Some p \<Longrightarrow> product_id (f p) = product_id p
     \<Longrightarrow> Product_save (f p) ps = update_first i f ps"
proof (induction ps)
  case Nil
  then show ?case by simp
next
  case (Cons d ds)
  show ?case
  proof (cases "product_id d = i")
    case True
    with Cons.prems show ?thesis by simp
  next
    case False
    with Cons.prems have f: "Product_findById i ds = Some p" by simp
    then have "product_id p = i" by (rule Product_findById_id)
    with Cons.IH[OF f Cons.prems(2)] False Cons.prems(2) show ?thesis by simp
  qed
qed

lemma update_first_absent:
  "Product_findById i ps = None \<Longrightarrow> update_first i f ps = ps"
  by (induction ps) (auto split: if_splits)

lemma findById_update_first:
  assumes "\<And>d. product_id (f d) = product_id d"
  shows "Product_findById j (update_first i f ps) =
           (if j = i then map_option f (Product_findById i ps) else Product_findById j ps)"
  using assms by (induction ps) auto

lemma update_first_commute:
  assumes "\<And>d. product_id (f d) = product_id d" "\<And>d. product_id (g d) = product_id d" "i \<noteq> j"
  shows "update_first i f (update_first j g ps) = update_first j g (update_first i f ps)"
  using assms by (induction ps) auto

lemma update_first_compose:
  assumes "\<And>d. product_id (g d) = product_id d"
  shows "update_first i f (update_first i g ps) = update_first i (\<lambda>d. f (g d)) ps"
  using assms by (induction ps) auto

lemma update_first_ident: "(\<And>d. f d = d) \<Longrightarrow> update_first i f ps = ps"
  by (induction ps) auto

lemma update_first_cong:
  "(\<And>p. Product_findById i ps = Some p \<Longrightarrow> f p = g p) \<Longrightarrow> update_first i f ps = update_first i g ps"
  by (induction ps) auto

lemma apply_item_commute:
  assumes "\<And>s. f (g s) = g (f s)"
  shows "apply_item f i (apply_item g j ps) = apply_item g j (apply_item f i ps)"
proof (cases "item_product i = item_product j")
  case True
  then show ?thesis
    by (simp add: apply_item_def update_first_compose map_counter_commute[of f g] assms)
next
  case False
  then show ?thesis
    by (simp add: apply_item_def update_first_commute)
qed

lemma apply_item_inverse:
  assumes "\<And>s. f (g s) = s"
  shows "apply_item f i (apply_item g i ps) = ps"
  by (simp add: apply_item_def update_first_compose map_counter_inverse[of f g] assms
      update_first_ident)

lemma shift_item_commute:
  "shift_item a i (shift_item b j ps) = shift_item b j (shift_item a i ps)"
  unfolding shift_item_def by (rule apply_item_commute) simp

lemma shift_item_inverse: "shift_item a i (shift_item (- a) i ps) = ps"
  unfolding shift_item_def by (rule apply_item_inverse) simp

lemma findById_apply_item:
  "Product_findById j (apply_item f i ps) =
     (if j = item_product i then map_option (map_counter f i) (Product_findById j ps)
      else Product_findById j ps)"
  by (simp add: apply_item_def findById_update_first)

lemma restore_loop_fold: "restore_loop ps items = fold inc_item items ps"
proof (induction items arbitrary: ps)
  case Nil
  then show ?case by simp
next
  case (Cons i items)
  show ?case
  proof (cases "Product_findById (item_product i) ps")
    case None
    then show ?thesis
      using Cons.IH by (simp add: inc_item_def apply_item_def update_first_absent)
  next
    case (Some p)
    then show ?thesis
      using Cons.IH
      by (simp add: inc_item_def apply_item_def restore_stock_map Product_save_fetched)
  qed
qed

lemma stored_apply_item [simp]: "stored (apply_item f i ps) j = stored ps j"
  by (simp add: stored_def findById_apply_item)

lemma update_stock_fold:
  "list_all (stored ps) items \<Longrightarrow> update_stock ps items = (None, fold dec_item items ps)"
proof (induction items arbitrary: ps)
  case Nil
  then show ?case by simp
next
  case (Cons i items)
  then obtain p where p: "Product_findById (item_product i) ps = Some p"
    by (auto simp: stored_def)
  have s: "Product_save (decrement_stock p i) ps = dec_item i ps"
    by (simp add: dec_item_def apply_item_def decrement_stock_map Product_save_fetched[OF p])
  have "list_all (stored (dec_item i ps)) items"
    using Cons.prems by (simp add: list_all_iff dec_item_def)
  from Cons.IH[OF this] show ?case
    by (simp add: p s)
qed

lemma shift_item_reserve_all:
  "shift_item a i (reserve_all items ps) = reserve_all items (shift_item a i ps)"
  by (induction items arbitrary: ps) (simp_all add: reserve_all_def shift_item_commute)

lemma release_reserve: "release_all items (reserve_all items ps) = ps"
proof (induction items arbitrary: ps)
  case Nil
  then show ?case by (simp add: release_all_def reserve_all_def)
next
  case (Cons i items)
  have "release_all (i # items) (reserve_all (i # items) ps)
        = release_all items (shift_item (item_quantity i) i
             (reserve_all items (shift_item (- item_quantity i) i ps)))"
    by (simp add: release_all_def reserve_all_def)
  also have "\<dots> = release_all items (reserve_all items ps)"
    by (simp add: shift_item_reserve_all shift_item_inverse)
  finally show ?case using Cons.IH by simp
qed

subsection \<open>Rounding\<close>




lemma round_half_even_of_int [simp]: "round_half_even (of_int m) = m"
  by (simp add: round_half_even_def Let_def)

lemma round64_of_int:
  assumes "\<bar>n\<bar> \<le> 2 ^ 53"
  shows "round64 (of_int n) = of_int n"
proof (cases "n = 0")
  case True
  then show ?thesis by (simp add: round64_def)
next
  case False
  define m where "m = \<bar>n\<bar>"
  have m: "0 < m" "m \<le> 2 ^ 53" using False assms by (simp_all add: m_def)
  have "(1::rat) \<le> of_int m"
    using m(1) by (metis int_one_le_iff_zero_less of_int_1 of_int_le_iff)
  moreover have am: "\<bar>of_int n :: rat\<bar> = of_int m" by (simp add: m_def)
  ultimately have e: "exponent \<bar>of_int n\<bar> = bitlen m - 1"
    by (simp only: am exponent_def if_True floor_of_int)
  have b: "2 ^ nat (bitlen m - 1) \<le> m" using bitlen_bounds[OF m(1)] by simp
  have "bitlen m \<le> 54"
  proof (rule ccontr)
    assume "\<not> bitlen m \<le> 54"
    then have "54 \<le> nat (bitlen m - 1)" by simp
    then have "(2::int) ^ 54 \<le> 2 ^ nat (bitlen m - 1)" by (rule power_increasing) simp
    with b m(2) show False by simp
  qed
  moreover have "1 \<le> bitlen m"
    using m(1) bitlen_nonneg[of m] bitlen_eq_zero_iff[of m] by linarith
  ultimately have q: "- 52 \<le> bitlen m - 1 - 52" "bitlen m - 1 - 52 \<le> 1" by simp_all
  define q where "q = bitlen m - 1 - 52"
  have mx: "max (exponent \<bar>of_int n\<bar>) (- 1022) - 52 = q"
    using q by (simp add: e q_def)
  have "pow2 q * of_int (round_half_even (of_int n / pow2 q)) = of_int n"
  proof (cases "q \<le> 0")
    case True
    then have p: "pow2 q = 1 / 2 ^ nat (- q)"
      by (cases "q = 0") (simp_all add: pow2_def)
    have "of_int n / pow2 q = (of_int (n * 2 ^ nat (- q)) :: rat)"
      by (simp add: p)
    then have "round_half_even (of_int n / pow2 q) = n * 2 ^ nat (- q)"
      by (simp only: round_half_even_of_int)
    then show ?thesis by (simp add: p)
  next
    case False
    then have q1: "q = 1" using q(2) by (simp add: q_def)
    then have "bitlen m = 54" by (simp add: q_def)
    then have "2 ^ 53 \<le> m" using b by simp
    then have m53: "m = 2 ^ 53" using m(2) by simp
    then have "n = 2 ^ 53 \<or> n = - (2 ^ 53)" by (auto simp: m_def abs_if split: if_splits)
    then show ?thesis
    proof
      assume "n = 2 ^ 53"
      then have "of_int n / pow2 q = (of_int (2 ^ 52) :: rat)" by (simp add: q1 pow2_def)
      then have "round_half_even (of_int n / pow2 q) = 2 ^ 52"
        by (simp only: round_half_even_of_int)
      then show ?thesis using \<open>n = 2 ^ 53\<close> by (simp add: q1 pow2_def)
    next
      assume "n = - (2 ^ 53)"
      then have "of_int n / pow2 q = (of_int (- (2 ^ 52)) :: rat)" by (simp add: q1 pow2_def)
      then have "round_half_even (of_int n / pow2 q) = - (2 ^ 52)"
        by (simp only: round_half_even_of_int)
      then show ?thesis using \<open>n = - (2 ^ 53)\<close> by (simp add: q1 pow2_def)
    qed
  qed
  then show ?thesis using False by (simp add: round64_def Let_def mx)
qed

lemma round64_exact: "is_integer x \<Longrightarrow> \<bar>x\<bar> \<le> exact_limit \<Longrightarrow> round64 x = x"
proof -
  assume "is_integer x" "\<bar>x\<bar> \<le> exact_limit"
  then have a: "is_integer x" "\<bar>x\<bar> \<le> 2 ^ 53" by (simp_all add: exact_limit_def)
  from a(1) have x: "x = of_int \<lfloor>x\<rfloor>" unfolding is_integer_def by (rule sym)
  have "(of_int \<bar>\<lfloor>x\<rfloor>\<bar> :: rat) \<le> of_int (2 ^ 53)"
    using a(2) x by (metis of_int_abs of_int_numeral of_int_power)
  then have "\<bar>\<lfloor>x\<rfloor>\<bar> \<le> 2 ^ 53" by (simp only: of_int_le_iff)
  then have "round64 (of_int \<lfloor>x\<rfloor>) = of_int \<lfloor>x\<rfloor>" by (rule round64_of_int)
  with x show ?thesis by simp
qed

lemma is_integer_Ints: "is_integer x \<longleftrightarrow> x \<in> \<int>"
  unfolding is_integer_def by (metis Ints_of_int of_int_floor_cancel Ints_cases)

lemma is_integer_add: "is_integer x \<Longrightarrow> is_integer y \<Longrightarrow> is_integer (x + y)"
  by (simp add: is_integer_Ints)

lemma is_integer_diff: "is_integer x \<Longrightarrow> is_integer y \<Longrightarrow> is_integer (x - y)"
  by (simp add: is_integer_Ints)

lemma is_integer_sum_list: "(\<And>x. x \<in> set xs \<Longrightarrow> is_integer x) \<Longrightarrow> is_integer (sum_list xs)"
  by (induction xs) (simp_all add: is_integer_Ints)

subsection \<open>Counters under the passes of the loops\<close>

lemma find_findIndex: "find P xs = map_option ((!) xs) (findIndex P xs)"
  by (induction xs) (auto simp: option.map_comp comp_def)

lemma variant_stock_bump:
  "k < length vs \<Longrightarrow>
     variant_stock (bump k f vs ! l) = (if l = k then f (variant_stock (vs ! k)) else variant_stock (vs ! l))"
  by (simp add: bump_def nth_list_update)

lemma find_name_bump:
  assumes "findIndex (\<lambda>v. variant_name v = m) vs = Some k"
  shows "map_option variant_stock (find (\<lambda>v. variant_name v = n) (bump k f vs)) =
           (if n = m then map_option f (map_option variant_stock (find (\<lambda>v. variant_name v = n) vs))
            else map_option variant_stock (find (\<lambda>v. variant_name v = n) vs))"
proof (cases "n = m")
  case True
  have k: "k < length vs" using findIndex_Some[OF assms] by simp
  show ?thesis
    unfolding find_findIndex findIndex_bump True assms
    using k by (simp add: variant_stock_bump)
next
  case False
  show ?thesis
  proof (cases "findIndex (\<lambda>v. variant_name v = n) vs")
    case None
    then show ?thesis using False by (simp add: find_findIndex)
  next
    case (Some l)
    have k: "k < length vs" "variant_name (vs ! k) = m" using findIndex_Some[OF assms] by auto
    have l: "l < length vs" "variant_name (vs ! l) = n" using findIndex_Some[OF Some] by auto
    have "l \<noteq> k" using k(2) l(2) False by auto
    then show ?thesis
      unfolding find_findIndex findIndex_bump Some
      using k(1) False by (simp add: variant_stock_bump)
  qed
qed

lemma stock_in_map_counter:
  "stock_in (map_counter f i p) x =
     (if x = variant_given i then map_option f (stock_in p x) else stock_in p x)"
proof (cases "variant_given i")
  case None
  then show ?thesis by (cases x) (simp_all add: map_counter_bump)
next
  case (Some m)
  note m = this
  show ?thesis
  proof (cases "findIndex (\<lambda>v. variant_name v = m) (product_variants p)")
    case None
    then have "find (\<lambda>v. variant_name v = m) (product_variants p) = None"
      by (simp add: find_findIndex)
    then show ?thesis using None m by (cases x) (auto simp: map_counter_bump)
  next
    case (Some k)
    then show ?thesis using m by (cases x) (auto simp: map_counter_bump find_name_bump)
  qed
qed

lemma counter_stock_apply_item:
  "counter_stock (apply_item f i ps) c =
     (if c = counter_of i then map_option f (counter_stock ps c) else counter_stock ps c)"
proof (cases c)
  case (Pair j x)
  show ?thesis
  proof (cases "Product_findById j ps")
    case None
    then show ?thesis by (auto simp: Pair counter_stock_def findById_apply_item counter_of_def)
  next
    case (Some p)
    then show ?thesis
      by (auto simp: Pair counter_stock_def findById_apply_item counter_of_def stock_in_map_counter)
  qed
qed

lemma map_counter_cong:
  assumes "\<And>s. stock_in p (variant_given i) = Some s \<Longrightarrow> f s = g s"
  shows "map_counter f i p = map_counter g i p"
proof (cases "variant_given i")
  case None
  then show ?thesis using assms by (simp add: map_counter_def)
next
  case (Some n)
  show ?thesis
  proof (cases "findIndex (\<lambda>v. variant_name v = n) (product_variants p)")
    case None
    then show ?thesis using Some by (simp add: map_counter_def)
  next
    case k: (Some k)
    then have "stock_in p (variant_given i) = Some (variant_stock (product_variants p ! k))"
      using Some by (simp add: find_findIndex)
    then have "f (variant_stock (product_variants p ! k)) = g (variant_stock (product_variants p ! k))"
      by (rule assms)
    then show ?thesis using Some k by (simp add: map_counter_def)
  qed
qed

lemma apply_item_cong:
  assumes "\<And>s. available ps i = Some s \<Longrightarrow> f s = g s"
  shows "apply_item f i ps = apply_item g i ps"
  unfolding apply_item_def
proof (rule update_first_cong)
  fix p assume p: "Product_findById (item_product i) ps = Some p"
  show "map_counter f i p = map_counter g i p"
  proof (rule map_counter_cong)
    fix s assume "stock_in p (variant_given i) = Some s"
    then have "available ps i = Some s"
      using p by (simp add: available_def counter_stock_def counter_of_def)
    then show "f s = g s" by (rule assms)
  qed
qed

lemma check_stock_in_stock:
  "check_stock ps items = None \<longleftrightarrow> list_all (in_stock ps) items"
proof (induction items)
  case Nil
  then show ?case by simp
next
  case (Cons i items)
  show ?case
  proof (cases "Product_findById (item_product i) ps")
    case None
    then show ?thesis by (simp add: in_stock_def available_def counter_stock_def counter_of_def)
  next
    case (Some p)
    then show ?thesis using Cons.IH
      by (auto simp: in_stock_def available_def counter_stock_def counter_of_def split: option.splits)
  qed
qed

lemma in_stock_stored: "in_stock ps i \<Longrightarrow> stored ps i"
  by (auto simp: in_stock_def available_def counter_stock_def counter_of_def stored_def split: option.splits)

lemma counter_stock_reserve_all:
  "counter_stock (reserve_all items ps) c =
     map_option (\<lambda>s. s - total_on c items) (counter_stock ps c)"
proof (induction items arbitrary: ps)
  case Nil
  then show ?case by (simp add: reserve_all_def total_on_def option.map_ident)
next
  case (Cons i items)
  have "reserve_all (i # items) ps = reserve_all items (shift_item (- item_quantity i) i ps)"
    by (simp add: reserve_all_def)
  then show ?case
    by (simp add: Cons.IH shift_item_def counter_stock_apply_item option.map_comp comp_def
        total_on_def diff_diff_eq)
qed

lemma findById_fold_apply:
  "j \<notin> item_product ` set items \<Longrightarrow>
     Product_findById j (fold (\<lambda>i. apply_item (f i) i) items ps) = Product_findById j ps"
  by (induction items arbitrary: ps) (simp_all add: findById_apply_item)

lemma counter_stock_fold_apply:
  "c \<notin> counter_of ` set items \<Longrightarrow>
     counter_stock (fold (\<lambda>i. apply_item (f i) i) items ps) c = counter_stock ps c"
  by (induction items arbitrary: ps) (simp_all add: counter_stock_apply_item)

lemma filter_distinct_key:
  "distinct (map f xs) \<Longrightarrow> x \<in> set xs \<Longrightarrow> filter (\<lambda>y. f y = f x) xs = [x]"
proof (induction xs)
  case Nil
  then show ?case by simp
next
  case (Cons y ys)
  show ?case
  proof (cases "x = y")
    case True
    have "f y \<notin> f ` set ys" using Cons.prems(1) by simp
    then have "\<And>z. z \<in> set ys \<Longrightarrow> f z \<noteq> f y" by (metis imageI)
    then have "filter (\<lambda>z. f z = f y) ys = []"
      by (simp add: filter_empty_conv)
    with True show ?thesis by simp
  next
    case False
    with Cons.prems have "x \<in> set ys" by simp
    then have "f y \<noteq> f x" using Cons.prems(1) by force
    with Cons \<open>x \<in> set ys\<close> show ?thesis by simp
  qed
qed

lemma total_on_distinct:
  "distinct (map counter_of items) \<Longrightarrow> i \<in> set items \<Longrightarrow> total_on (counter_of i) items = item_quantity i"
  by (simp add: total_on_def filter_distinct_key)

lemma total_on_absent: "c \<notin> counter_of ` set items \<Longrightarrow> total_on c items = 0"
proof -
  assume "c \<notin> counter_of ` set items"
  then have "filter (\<lambda>j. counter_of j = c) items = []"
    by (force simp: filter_empty_conv)
  then show ?thesis by (simp add: total_on_def)
qed

lemma total_on_nonneg:
  "(\<And>i. i \<in> set items \<Longrightarrow> 0 \<le> item_quantity i) \<Longrightarrow> 0 \<le> total_on c items"
  unfolding total_on_def by (rule sum_list_nonneg) auto

lemma total_on_le_sum:
  "(\<And>i. i \<in> set items \<Longrightarrow> 0 \<le> item_quantity i) \<Longrightarrow>
     total_on c items \<le> sum_list (map item_quantity items)"
  unfolding total_on_def by (induction items) (auto intro: add_increasing)

lemma total_on_integer:
  "(\<And>i. i \<in> set items \<Longrightarrow> is_integer (item_quantity i)) \<Longrightarrow> is_integer (total_on c items)"
  unfolding total_on_def by (rule is_integer_sum_list) auto

lemma total_on_Cons:
  "total_on c (i # items) = (if counter_of i = c then item_quantity i else 0) + total_on c items"
  by (simp add: total_on_def)

subsection \<open>When the loops round nothing\<close>

lemma dec_item_round: "dec_item i ps = round_item (- 1) i ps"
  by (simp add: dec_item_def round_item_def js_sub_def)

lemma inc_item_round: "inc_item i ps = round_item 1 i ps"
  by (simp add: inc_item_def round_item_def js_add_def)

lemma abs_between:
  fixes s t q :: rat
  assumes "\<bar>s\<bar> \<le> b" "\<bar>s + sg * t\<bar> \<le> b" "0 \<le> q" "q \<le> t" "sg = 1 \<or> sg = - 1"
  shows "\<bar>s + sg * q\<bar> \<le> b"
  using assms by (auto simp: abs_le_iff)

lemma is_integer_step:
  assumes "is_integer s" "is_integer q" "sg = 1 \<or> sg = - 1"
  shows "is_integer (s + sg * q)"
  using assms by (auto simp: is_integer_add is_integer_diff)

lemma exact_run_quantity:
  assumes "exact_run sg ps items" "i \<in> set items"
  shows "is_integer (item_quantity i) \<and> 0 \<le> item_quantity i"
  using assms unfolding exact_run_def by blast

lemma exact_run_stock:
  assumes "exact_run sg ps items" "i \<in> set items" "available ps i = Some s"
  shows "is_integer s \<and> \<bar>s\<bar> \<le> exact_limit
         \<and> \<bar>s + sg * total_on (counter_of i) items\<bar> \<le> exact_limit"
  using assms unfolding exact_run_def by blast

lemma round_item_exact:
  assumes "sg = 1 \<or> sg = - 1" "exact_run sg ps (i # items)"
  shows "round_item sg i ps = shift_item (sg * item_quantity i) i ps"
  unfolding round_item_def shift_item_def
proof (rule apply_item_cong)
  fix s assume s: "available ps i = Some s"
  have i: "is_integer (item_quantity i)" "0 \<le> item_quantity i" "is_integer s" "\<bar>s\<bar> \<le> exact_limit"
    "\<bar>s + sg * total_on (counter_of i) (i # items)\<bar> \<le> exact_limit"
    using exact_run_quantity[OF assms(2), of i] exact_run_stock[OF assms(2) _ s] by simp_all
  have "\<And>j. j \<in> set items \<Longrightarrow> 0 \<le> item_quantity j"
    using exact_run_quantity[OF assms(2)] by simp
  then have "0 \<le> total_on (counter_of i) items" by (rule total_on_nonneg)
  then have "item_quantity i \<le> total_on (counter_of i) (i # items)"
    by (simp add: total_on_Cons)
  then have "\<bar>s + sg * item_quantity i\<bar> \<le> exact_limit"
    by (rule abs_between[OF i(4) i(5) i(2) _ assms(1)])
  moreover have "is_integer (s + sg * item_quantity i)"
    using i(3,1) assms(1) by (rule is_integer_step)
  ultimately show "round64 (s + sg * item_quantity i) = s + sg * item_quantity i"
    by (simp add: round64_exact)
qed

lemma exact_run_step:
  assumes "sg = 1 \<or> sg = - 1" "exact_run sg ps (i # items)"
  shows "exact_run sg (shift_item (sg * item_quantity i) i ps) items"
  unfolding exact_run_def
proof (intro ballI conjI allI impI)
  fix j assume j: "j \<in> set items"
  then have jj: "j \<in> set (i # items)" by simp
  show "is_integer (item_quantity j)" "0 \<le> item_quantity j"
    using exact_run_quantity[OF assms(2) jj] by simp_all
  have nn: "\<And>k. k \<in> set items \<Longrightarrow> 0 \<le> item_quantity k"
    using exact_run_quantity[OF assms(2)] by simp
  fix s' assume s': "available (shift_item (sg * item_quantity i) i ps) j = Some s'"
  show "is_integer s'" "\<bar>s'\<bar> \<le> exact_limit" "\<bar>s' + sg * total_on (counter_of j) items\<bar> \<le> exact_limit"
  proof -
    have "is_integer s' \<and> \<bar>s'\<bar> \<le> exact_limit \<and> \<bar>s' + sg * total_on (counter_of j) items\<bar> \<le> exact_limit"
    proof (cases "counter_of j = counter_of i")
      case True
      from s' True obtain s where s: "available ps j = Some s" "s' = s + sg * item_quantity i"
        by (auto simp: available_def shift_item_def counter_stock_apply_item)
      then have si: "available ps i = Some s" using True by (simp add: available_def)
      have i: "is_integer (item_quantity i)" "0 \<le> item_quantity i" "is_integer s" "\<bar>s\<bar> \<le> exact_limit"
        "\<bar>s + sg * total_on (counter_of i) (i # items)\<bar> \<le> exact_limit"
        using exact_run_quantity[OF assms(2), of i] exact_run_stock[OF assms(2) _ si] by simp_all
      have "0 \<le> total_on (counter_of i) items" using nn by (rule total_on_nonneg)
      then have le: "item_quantity i \<le> total_on (counter_of i) (i # items)"
        by (simp add: total_on_Cons)
      have 1: "is_integer s'" unfolding s(2) using i(3,1) assms(1) by (rule is_integer_step)
      have 2: "\<bar>s'\<bar> \<le> exact_limit" unfolding s(2)
        by (rule abs_between[OF i(4) i(5) i(2) le assms(1)])
      have "s' + sg * total_on (counter_of j) items = s + sg * total_on (counter_of i) (i # items)"
        by (simp add: s(2) True total_on_Cons algebra_simps)
      with i(5) have 3: "\<bar>s' + sg * total_on (counter_of j) items\<bar> \<le> exact_limit" by simp
      from 1 2 3 show ?thesis by simp
    next
      case False
      with s' have s: "available ps j = Some s'"
        by (auto simp: available_def shift_item_def counter_stock_apply_item)
      have "total_on (counter_of j) (i # items) = total_on (counter_of j) items"
        using False by (auto simp: total_on_Cons)
      then show ?thesis using exact_run_stock[OF assms(2) jj s] by simp
    qed
    then show "is_integer s'" "\<bar>s'\<bar> \<le> exact_limit"
      "\<bar>s' + sg * total_on (counter_of j) items\<bar> \<le> exact_limit" by simp_all
  qed
qed

lemma fold_round_exact:
  assumes "sg = 1 \<or> sg = - 1"
  shows "exact_run sg ps items \<Longrightarrow>
    fold (round_item sg) items ps = fold (\<lambda>i. shift_item (sg * item_quantity i) i) items ps"
proof (induction items arbitrary: ps)
  case Nil
  then show ?case by simp
next
  case (Cons i items)
  have "round_item sg i ps = shift_item (sg * item_quantity i) i ps"
    using assms Cons.prems by (rule round_item_exact)
  moreover have "exact_run sg (shift_item (sg * item_quantity i) i ps) items"
    using assms Cons.prems by (rule exact_run_step)
  ultimately show ?case using Cons.IH by simp
qed

lemma fold_dec_exact:
  "exact_run (- 1) ps items \<Longrightarrow> fold dec_item items ps = reserve_all items ps"
proof -
  assume "exact_run (- 1) ps items"
  then have "fold (round_item (- 1)) items ps
      = fold (\<lambda>i. shift_item (- 1 * item_quantity i) i) items ps"
    by (intro fold_round_exact) simp
  moreover have "dec_item = round_item (- 1)" by (intro ext) (rule dec_item_round)
  ultimately show ?thesis by (simp add: reserve_all_def)
qed

lemma fold_inc_exact:
  "exact_run 1 ps items \<Longrightarrow> fold inc_item items ps = release_all items ps"
proof -
  assume "exact_run 1 ps items"
  then have "fold (round_item 1) items ps
      = fold (\<lambda>i. shift_item (1 * item_quantity i) i) items ps"
    by (intro fold_round_exact) simp
  moreover have "inc_item = round_item 1" by (intro ext) (rule inc_item_round)
  ultimately show ?thesis by (simp add: release_all_def)
qed

lemma safe_integer_bound: "safe_integer x \<Longrightarrow> is_integer x \<and> \<bar>x\<bar> \<le> exact_limit"
  by (simp add: safe_integer_def exact_limit_def)

lemma exact_run_distinct:
  assumes "list_all (in_stock ps) items" "list_all (safe_item ps) items"
    "distinct (map counter_of items)"
  shows "exact_run (- 1) ps items"
  unfolding exact_run_def
proof (intro ballI conjI allI impI)
  fix i assume i: "i \<in> set items"
  then have s: "safe_item ps i" "in_stock ps i" using assms(1,2) by (auto simp: list_all_iff)
  show "is_integer (item_quantity i)" "0 \<le> item_quantity i"
    using s(1) by (simp_all add: safe_item_def safe_integer_def)
  fix st assume st: "available ps i = Some st"
  then have b: "safe_integer st" "item_quantity i \<le> st" "0 \<le> item_quantity i"
    using s by (simp_all add: safe_item_def in_stock_def)
  show "is_integer st" "\<bar>st\<bar> \<le> exact_limit" using safe_integer_bound[OF b(1)] by simp_all
  have "total_on (counter_of i) items = item_quantity i"
    using assms(3) i by (rule total_on_distinct)
  then show "\<bar>st + - 1 * total_on (counter_of i) items\<bar> \<le> exact_limit"
    using b by (simp add: safe_integer_def exact_limit_def abs_le_iff)
qed

lemma exact_run_total:
  assumes "list_all (in_stock ps) items" "list_all (safe_item ps) items"
    "sum_list (map item_quantity items) \<le> 9007199254740991"
  shows "exact_run (- 1) ps items"
  unfolding exact_run_def
proof (intro ballI conjI allI impI)
  fix i assume i: "i \<in> set items"
  then have s: "safe_item ps i" "in_stock ps i" using assms(1,2) by (auto simp: list_all_iff)
  show "is_integer (item_quantity i)" "0 \<le> item_quantity i"
    using s(1) by (simp_all add: safe_item_def safe_integer_def)
  fix st assume st: "available ps i = Some st"
  then have b: "safe_integer st" "item_quantity i \<le> st" "0 \<le> item_quantity i"
    using s by (simp_all add: safe_item_def in_stock_def)
  show "is_integer st" "\<bar>st\<bar> \<le> exact_limit" using safe_integer_bound[OF b(1)] by simp_all
  have nn: "\<And>j. j \<in> set items \<Longrightarrow> 0 \<le> item_quantity j"
    using assms(2) by (auto simp: list_all_iff safe_item_def)
  have "0 \<le> total_on (counter_of i) items" using nn by (rule total_on_nonneg)
  moreover have "total_on (counter_of i) items \<le> 9007199254740991"
    using total_on_le_sum[of items "counter_of i"] nn assms(3) by simp
  ultimately show "\<bar>st + - 1 * total_on (counter_of i) items\<bar> \<le> exact_limit"
    using b by (simp add: safe_integer_def exact_limit_def abs_le_iff)
qed

lemma exact_run_back:
  assumes "exact_run (- 1) ps items"
  shows "exact_run 1 (reserve_all items ps) items"
  unfolding exact_run_def
proof (intro ballI conjI allI impI)
  fix i assume i: "i \<in> set items"
  show "is_integer (item_quantity i)" "0 \<le> item_quantity i"
    using exact_run_quantity[OF assms i] by simp_all
  have int: "\<And>j. j \<in> set items \<Longrightarrow> is_integer (item_quantity j)"
    using exact_run_quantity[OF assms] by simp
  fix s' assume "available (reserve_all items ps) i = Some s'"
  then obtain s where s: "available ps i = Some s" "s' = s - total_on (counter_of i) items"
    by (auto simp: available_def counter_stock_reserve_all)
  then have b: "is_integer s" "\<bar>s\<bar> \<le> exact_limit" "\<bar>s + - 1 * total_on (counter_of i) items\<bar> \<le> exact_limit"
    using exact_run_stock[OF assms i, of s] by simp_all
  have "is_integer (total_on (counter_of i) items)" using int by (rule total_on_integer)
  with b(1) show "is_integer s'" unfolding s(2) by (rule is_integer_diff)
  show "\<bar>s'\<bar> \<le> exact_limit" using b(3) by (simp add: s(2))
  show "\<bar>s' + 1 * total_on (counter_of i) items\<bar> \<le> exact_limit" using b(2) by (simp add: s(2))
qed

subsection \<open>Evaluation\<close>

text \<open>
  The rounding at work. Above \<open>2 ^ 53\<close> only every second integer is a Number, and
  \<open>2 ^ 53 + 1\<close> lies halfway between two of them. The Numbers written \<open>0.1\<close>, \<open>0.2\<close>
  and \<open>0.3\<close> are \<open>3602879701896397 / 2 ^ 55\<close>, \<open>3602879701896397 / 2 ^ 54\<close> and
  \<open>5404319552844595 / 2 ^ 54\<close>; the sum of the first two is the Number above the
  third, printed \<open>0.30000000000000004\<close>, and \<open>0.3 - 0.1\<close> is the Number below \<open>0.2\<close>.
\<close>

lemma round64_beyond: "round64 9007199254740993 = 9007199254740992"
  by code_simp

lemma round64_ties:
  "round64 9007199254740995 = 9007199254740996"
  "round64 (- 9007199254740993) = - 9007199254740992"
  by code_simp+

lemma js_tenths:
  "js_add (3602879701896397 / 2 ^ 55) (3602879701896397 / 2 ^ 54) = 5404319552844596 / 2 ^ 54"
  "js_sub (5404319552844595 / 2 ^ 54) (3602879701896397 / 2 ^ 55) = 7205759403792793 / 2 ^ 55"
  by code_simp+

lemma js_small:
  "is_integer (x - y) \<Longrightarrow> \<bar>x - y\<bar> \<le> exact_limit \<Longrightarrow> js_sub x y = x - y"
  "is_integer (x + y) \<Longrightarrow> \<bar>x + y\<bar> \<le> exact_limit \<Longrightarrow> js_add x y = x + y"
  by (simp_all add: js_sub_def js_add_def round64_exact)

lemma js_beyond:
  "js_sub 9007199254740994 1 = 9007199254740992"
  "js_add 9007199254740992 1 = 9007199254740992"
  by (simp_all add: js_sub_def js_add_def round64_beyond)

lemmas ledger_defs = Let_def createOrder_def new_Order_def in_stock_def exceeds_stock_def available_def
  counter_stock_def counter_of_def variant_given_def decrement_stock_def restore_stock_def
  js_small js_beyond is_integer_def exact_limit_def safe_item_def safe_integer_def

lemmas shop_defs = shop_def depot_def customer_def red3_def red1_def main2_def plain3_def
  plain9_def ghost1_def unit3_def

subsection \<open>createOrder\<close>

lemma createOrder_success:
  assumes "items \<noteq> []" "list_all (in_stock (products st)) items"
  shows "createOrder st u nid items =
           (Inr (new_Order nid (user_id u) items),
            st\<lparr>orders := Order_save (new_Order nid (user_id u) items) (orders st),
               products := fold dec_item items (products st)\<rparr>)"
proof -
  have c: "check_stock (products st) items = None"
    using assms(2) by (simp add: check_stock_in_stock)
  have "list_all (stored (products st)) items"
    using assms(2) by (auto simp: list_all_iff in_stock_stored)
  then have u: "update_stock (products st) items = (None, fold dec_item items (products st))"
    by (rule update_stock_fold)
  show ?thesis using assms(1) by (simp add: createOrder_def c u Let_def)
qed

lemma createOrder_Inr:
  assumes "createOrder st u nid items = (Inr created, st1)"
  shows "items \<noteq> [] \<and> list_all (in_stock (products st)) items"
proof -
  have ne: "items \<noteq> []" using assms by (auto simp: createOrder_def)
  have "check_stock (products st) items = None"
    using assms ne by (auto simp: createOrder_def split: option.splits)
  then show ?thesis using ne by (simp add: check_stock_in_stock)
qed

lemma fold_dec_untouched:
  "c \<notin> counter_of ` set items \<Longrightarrow> counter_stock (fold dec_item items ps) c = counter_stock ps c"
  "j \<notin> item_product ` set items \<Longrightarrow> Product_findById j (fold dec_item items ps) = Product_findById j ps"
proof -
  have d: "dec_item = (\<lambda>i. apply_item (\<lambda>s. js_sub s (item_quantity i)) i)"
    by (intro ext) (simp add: dec_item_def)
  show "c \<notin> counter_of ` set items \<Longrightarrow> counter_stock (fold dec_item items ps) c = counter_stock ps c"
    unfolding d by (rule counter_stock_fold_apply)
  show "j \<notin> item_product ` set items \<Longrightarrow> Product_findById j (fold dec_item items ps) = Product_findById j ps"
    unfolding d by (rule findById_fold_apply)
qed

text \<open>
  Claim C1, as the code has it. When the item list is not empty, every item resolves to
  a counter (the variant of the given name when a variant is named, the product's stock
  otherwise) that holds at least the requested quantity, the quantities are safe
  integers that are not negative and those counters hold safe integers, and no two items
  resolve to the same counter, \<open>createOrder\<close> succeeds and each resolved counter
  decreases by exactly the requested quantity. Every counter that no item resolves to
  keeps its value, so an item that names a variant leaves the stock of its product
  alone, and the products that no item lists are unchanged as whole documents. With an
  empty item list \<open>createOrder\<close> fails with the no order items error and changes
  nothing.
\<close>

theorem createOrder_reserves:
  assumes "items \<noteq> []"
    and "list_all (in_stock (products st)) items"
    and "list_all (safe_item (products st)) items"
    and "distinct (map counter_of items)"
  shows "fst (createOrder st u nid items) = Inr (new_Order nid (user_id u) items)
       \<and> (\<forall>i \<in> set items. \<forall>s. available (products st) i = Some s \<longrightarrow>
             available (products (snd (createOrder st u nid items))) i = Some (s - item_quantity i))
       \<and> (\<forall>c. c \<notin> counter_of ` set items \<longrightarrow>
             counter_stock (products (snd (createOrder st u nid items))) c
               = counter_stock (products st) c)
       \<and> (\<forall>j. j \<notin> item_product ` set items \<longrightarrow>
             Product_findById j (products (snd (createOrder st u nid items)))
               = Product_findById j (products st))
       \<and> createOrder st u nid [] = (Inl No_order_items, st)"
proof -
  note ok = createOrder_success[OF assms(1,2), of u nid]
  have ex: "exact_run (- 1) (products st) items"
    using assms(2,3,4) by (rule exact_run_distinct)
  have ps: "products (snd (createOrder st u nid items)) = fold dec_item items (products st)"
    by (simp add: ok)
  have rs: "fold dec_item items (products st) = reserve_all items (products st)"
    using ex by (rule fold_dec_exact)
  have one: "\<And>i. i \<in> set items \<Longrightarrow> total_on (counter_of i) items = item_quantity i"
    using assms(4) by (rule total_on_distinct)
  have 1: "fst (createOrder st u nid items) = Inr (new_Order nid (user_id u) items)"
    by (simp add: ok)
  have 2: "\<forall>i \<in> set items. \<forall>s. available (products st) i = Some s \<longrightarrow>
             available (products (snd (createOrder st u nid items))) i = Some (s - item_quantity i)"
    unfolding ps rs by (simp add: available_def counter_stock_reserve_all one)
  have 3: "\<forall>c. c \<notin> counter_of ` set items \<longrightarrow>
             counter_stock (products (snd (createOrder st u nid items))) c
               = counter_stock (products st) c"
    unfolding ps by (simp add: fold_dec_untouched)
  have 4: "\<forall>j. j \<notin> item_product ` set items \<longrightarrow>
             Product_findById j (products (snd (createOrder st u nid items)))
               = Product_findById j (products st)"
    unfolding ps by (simp add: fold_dec_untouched)
  have 5: "createOrder st u nid [] = (Inl No_order_items, st)"
    by (simp add: createOrder_def)
  from 1 2 3 4 5 show ?thesis by blast
qed

theorem createOrder_reserves_witness:
  "distinct (map counter_of [red3, main2, plain3])
   \<and> list_all (safe_item (products shop)) [red3, main2, plain3]
   \<and> fst (createOrder shop customer 500 [red3, main2, plain3])
       = Inr (new_Order 500 100 [red3, main2, plain3])
   \<and> available (products shop) red3 = Some 3
   \<and> available (products (snd (createOrder shop customer 500 [red3, main2, plain3]))) red3 = Some 0
   \<and> available (products (snd (createOrder shop customer 500 [red3, main2, plain3]))) main2 = Some 3
   \<and> available (products (snd (createOrder shop customer 500 [red3, main2, plain3]))) plain3 = Some 1
   \<and> counter_stock (products (snd (createOrder shop customer 500 [red3]))) (1, None) = Some 5
   \<and> fst (createOrder (snd (createOrder shop customer 500 [red3])) customer 501 [red1])
       = Inl (Not_enough_stock 0)"
  using createOrder_reserves[of "[red3, main2, plain3]" shop customer 500]
    createOrder_reserves[of "[red3]" shop customer 500]
  by (simp add: ledger_defs shop_defs)

theorem createOrder_reserves_counterexample:
  "list_all (in_stock (products shop)) []
   \<and> fst (createOrder shop customer 500 []) = Inl No_order_items
   \<and> list_all (in_stock (products shop)) [plain3, plain3]
   \<and> available (products shop) plain3 = Some 4
   \<and> available (products (snd (createOrder shop customer 500 [plain3, plain3]))) plain3 = Some (- 2)
   \<and> list_all (in_stock (products depot)) [unit3]
   \<and> available (products depot) unit3 = Some 9007199254740994
   \<and> available (products (snd (createOrder depot customer 500 [unit3]))) unit3
       = Some 9007199254740992"
  by (simp add: ledger_defs shop_defs)

lemma check_stock_first_failure:
  "find (\<lambda>i. \<not> in_stock ps i) items = Some i \<Longrightarrow>
     \<exists>e. check_stock ps items = Some e
       \<and> (case available ps i of Some s \<Rightarrow> e = Not_enough_stock s | None \<Rightarrow> NotFound e)"
proof (induction items)
  case Nil
  then show ?case by simp
next
  case (Cons j items)
  show ?case
  proof (cases "in_stock ps j")
    case True
    then have "check_stock ps (j # items) = check_stock ps items"
      by (auto simp: in_stock_def available_def counter_stock_def counter_of_def
          split: option.splits)
    with Cons True show ?thesis by simp
  next
    case False
    with Cons.prems have "i = j" by simp
    with False show ?thesis
      by (auto simp: in_stock_def available_def counter_stock_def counter_of_def
          split: option.splits)
  qed
qed

lemma exceeds_not_in_stock: "exceeds_stock ps i \<Longrightarrow> \<not> in_stock ps i"
  by (auto simp: exceeds_stock_def in_stock_def split: option.splits)

text \<open>
  Claim C2, as the code has it. When at least one item asks for more than the stock of
  its resolved counter, \<open>createOrder\<close> fails and leaves the whole store as it was: no
  counter is written and no order is saved. The error is that of the first item, in
  the order of the list, that fails the check: not enough stock, carrying the available
  quantity, when that item resolves to a counter, and not found when its product or its
  variant does not exist. So when every item resolves, the error is not enough stock.
\<close>

theorem createOrder_insufficient:
  assumes "list_ex (exceeds_stock (products st)) items"
  shows "\<exists>e i. createOrder st u nid items = (Inl e, st)
           \<and> find (\<lambda>i. \<not> in_stock (products st) i) items = Some i
           \<and> (case available (products st) i of
                 Some s \<Rightarrow> e = Not_enough_stock s
               | None \<Rightarrow> NotFound e)
           \<and> (list_all (\<lambda>i. available (products st) i \<noteq> None) items \<longrightarrow> InsufficientStock e)"
proof -
  from assms obtain j where j: "j \<in> set items" "exceeds_stock (products st) j"
    by (auto simp: list_ex_iff)
  then have ne: "items \<noteq> []" by auto
  from j have "\<exists>i\<in>set items. \<not> in_stock (products st) i"
    using exceeds_not_in_stock by blast
  then obtain i where i: "find (\<lambda>i. \<not> in_stock (products st) i) items = Some i"
    by (cases "find (\<lambda>i. \<not> in_stock (products st) i) items") (auto simp: find_None_iff)
  from check_stock_first_failure[OF i] obtain e where
    e: "check_stock (products st) items = Some e"
       "case available (products st) i of Some s \<Rightarrow> e = Not_enough_stock s | None \<Rightarrow> NotFound e"
    by blast
  have c: "createOrder st u nid items = (Inl e, st)"
    using ne e(1) by (simp add: createOrder_def)
  have "i \<in> set items" using i by (auto simp: find_Some_iff in_set_conv_nth)
  then have "list_all (\<lambda>i. available (products st) i \<noteq> None) items \<longrightarrow> InsufficientStock e"
    using e(2) by (auto simp: list_all_iff split: option.splits)
  with c i e(2) show ?thesis by blast
qed

theorem createOrder_insufficient_witness:
  "list_ex (exceeds_stock (products shop)) [red3, plain9]
   \<and> createOrder shop customer 500 [red3, plain9] = (Inl (Not_enough_stock 4), shop)"
  using createOrder_insufficient[of shop "[red3, plain9]" customer 500]
  by (simp add: ledger_defs shop_defs)

theorem createOrder_insufficient_counterexample:
  "list_ex (exceeds_stock (products shop)) [ghost1, plain9]
   \<and> createOrder shop customer 500 [ghost1, plain9] = (Inl (Product_not_found 7), shop)
   \<and> \<not> InsufficientStock (Product_not_found 7)"
  by (simp add: ledger_defs shop_defs)

lemma Order_findById_save: "Order_findById (order_id x) (Order_save x os) = Some x"
  by (induction os) auto

text \<open>
  Claim C7, as the code has it. Take a store and an item list in which the quantities
  are safe integers that are not negative and sum to at most \<open>2 ^ 53 - 1\<close>, and the
  counters the items resolve to hold safe integers. After a \<open>createOrder\<close> that
  succeeded, the restoration loop of \<open>cancelOrder\<close> on the same items gives back the
  product collection as it was before the order, so every product stock and every
  variant stock has its former value; items may share a counter. Cancelling the
  created order by its owner runs that loop: it succeeds and leaves the products as they
  were before the order.
\<close>

theorem reserve_then_release:
  assumes "fst (createOrder st u nid items) = Inr created"
    and "list_all (safe_item (products st)) items"
    and "sum_list (map item_quantity items) \<le> 9007199254740991"
  shows "restore_loop (products (snd (createOrder st u nid items))) items = products st
       \<and> fst (cancelOrder (snd (createOrder st u nid items)) u nid)
           = Inr (created\<lparr>order_status := ''cancelled''\<rparr>)
       \<and> products (snd (cancelOrder (snd (createOrder st u nid items)) u nid)) = products st"
proof -
  obtain st1 where c: "createOrder st u nid items = (Inr created, st1)"
    using assms(1) by (cases "createOrder st u nid items") simp
  from createOrder_Inr[OF c] have ok: "items \<noteq> []" "list_all (in_stock (products st)) items"
    by auto
  note eq = createOrder_success[OF ok, of u nid]
  have ex: "exact_run (- 1) (products st) items"
    using ok(2) assms(2,3) by (rule exact_run_total)
  have rs: "fold dec_item items (products st) = reserve_all items (products st)"
    using ex by (rule fold_dec_exact)
  have created: "created = new_Order nid (user_id u) items" using c eq by simp
  have st1: "st1 = st\<lparr>orders := Order_save created (orders st),
                      products := reserve_all items (products st)\<rparr>"
    using c eq created rs by simp
  have "fold inc_item items (reserve_all items (products st))
          = release_all items (reserve_all items (products st))"
    using exact_run_back[OF ex] by (rule fold_inc_exact)
  then have r: "restore_loop (products st1) items = products st"
    by (simp add: st1 restore_loop_fold release_reserve)
  have f: "Order_findById nid (orders st1) = Some created"
    using Order_findById_save[of created "orders st"] by (simp add: st1 created new_Order_def)
  have i: "order_orderItems created = items" "order_status created = ''pending''"
    "order_user created = user_id u"
    by (simp_all add: created new_Order_def)
  have "cancelOrder st1 u nid =
          (Inr (created\<lparr>order_status := ''cancelled''\<rparr>),
           st1\<lparr>products := products st,
               orders := Order_save (created\<lparr>order_status := ''cancelled''\<rparr>) (orders st1)\<rparr>)"
    by (simp add: cancelOrder_def f i r Let_def)
  then show ?thesis using r by (simp add: c)
qed

theorem reserve_then_release_witness:
  "fst (createOrder shop customer 500 [red1, red1, plain3])
     = Inr (new_Order 500 100 [red1, red1, plain3])
   \<and> list_all (safe_item (products shop)) [red1, red1, plain3]
   \<and> available (products (snd (createOrder shop customer 500 [red1, red1, plain3]))) red1 = Some 1
   \<and> available (products (snd (createOrder shop customer 500 [red1, red1, plain3]))) plain3 = Some 1
   \<and> restore_loop (products (snd (createOrder shop customer 500 [red1, red1, plain3])))
         [red1, red1, plain3]
       = products shop"
  using reserve_then_release[of shop customer 500 "[red1, red1, plain3]"
      "new_Order 500 100 [red1, red1, plain3]"]
  by (simp add: ledger_defs shop_defs)

theorem reserve_then_release_counterexample:
  "fst (createOrder depot customer 500 [unit3]) = Inr (new_Order 500 100 [unit3])
   \<and> available (products depot) unit3 = Some 9007199254740994
   \<and> available (products (snd (createOrder depot customer 500 [unit3]))) unit3
       = Some 9007199254740992
   \<and> available (restore_loop (products (snd (createOrder depot customer 500 [unit3]))) [unit3]) unit3
       = Some 9007199254740992
   \<and> restore_loop (products (snd (createOrder depot customer 500 [unit3]))) [unit3]
       \<noteq> products depot"
  by (simp add: ledger_defs shop_defs)

subsection \<open>The stock invariant\<close>


lemma stock_ok_save: "stock_ok ps \<Longrightarrow> product_ok p \<Longrightarrow> stock_ok (Product_save p ps)"
  by (induction ps) (auto simp: stock_ok_def)

















lemmas stock_ok_defs = stock_ok_def product_ok_def body_ok_def quantities_ok_def
  shop_ordered_def shop_cancelled_def negative_stock_def restock_def nameless_def
  payment_def no_payer_def



subsection \<open>cancelOrder\<close>

lemma Order_findById_id: "Order_findById i os = Some x \<Longrightarrow> order_id x = i"
  by (induction os) (auto split: if_splits)

lemma cancelOrder_rejects:
  assumes "Order_findById oid (orders st) = Some ord" "\<not> cancellable ord"
  shows "cancelOrder st u oid = (Inl Order_cannot_be_cancelled, st)"
  using assms by (simp add: cancelOrder_def cancellable_def)

lemma cancelOrder_accepts:
  assumes "Order_findById oid (orders st) = Some ord" "cancellable ord" "may_cancel u ord"
  shows "cancelOrder st u oid =
           (Inr (ord\<lparr>order_status := ''cancelled''\<rparr>),
            st\<lparr>products := restore_loop (products st) (order_orderItems ord),
               orders := Order_save (ord\<lparr>order_status := ''cancelled''\<rparr>) (orders st)\<rparr>)"
  using assms by (auto simp: cancelOrder_def cancellable_def may_cancel_def Let_def)

lemma cancelOrder_Inr:
  assumes "fst (cancelOrder st u oid) = Inr r"
  shows "\<exists>ord. Order_findById oid (orders st) = Some ord \<and> cancellable ord
           \<and> r = ord\<lparr>order_status := ''cancelled''\<rparr>
           \<and> snd (cancelOrder st u oid) =
               st\<lparr>products := restore_loop (products st) (order_orderItems ord),
                  orders := Order_save r (orders st)\<rparr>"
proof (cases "Order_findById oid (orders st)")
  case None
  then show ?thesis using assms by (simp add: cancelOrder_def)
next
  case (Some ord)
  then show ?thesis using assms
    by (auto simp: cancelOrder_def cancellable_def Let_def split: if_splits)
qed

lemma cancelOrder_stored:
  assumes "fst (cancelOrder st u oid) = Inr r"
  shows "Order_findById oid (orders (snd (cancelOrder st u oid))) = Some r
         \<and> order_status r = ''cancelled''"
proof -
  from cancelOrder_Inr[OF assms] obtain ord where
    o: "Order_findById oid (orders st) = Some ord" "r = ord\<lparr>order_status := ''cancelled''\<rparr>"
       "snd (cancelOrder st u oid) =
               st\<lparr>products := restore_loop (products st) (order_orderItems ord),
                  orders := Order_save r (orders st)\<rparr>"
    by blast
  have "order_id r = oid" using o(1,2) Order_findById_id by fastforce
  then show ?thesis using o(2,3) Order_findById_save[of r "orders st"] by simp
qed

text \<open>
  Claim C9, as the code has it. \<open>cancelOrder\<close> on an order whose status is neither
  \<open>pending\<close> nor \<open>processing\<close> throws before it writes anything: the store, with the
  order and every product, is as it was. A cancellation that succeeded leaves the order
  \<open>cancelled\<close>, so a \<open>cancelOrder\<close> on the store it left, by whoever asks, is refused and
  restores no stock a second time. The test is of the stored status alone: whenever
  that is \<open>pending\<close> or \<open>processing\<close> and the caller is the owner or an admin,
  \<open>cancelOrder\<close> succeeds and runs the restoration loop over the items of the order,
  whatever happened to the order before.
\<close>

theorem cancelOrder_refused_when_not_cancellable:
  "(Order_findById oid (orders st) = Some ord \<and> order_status ord \<noteq> ''pending''
      \<and> order_status ord \<noteq> ''processing''
      \<longrightarrow> cancelOrder st u oid = (Inl Order_cannot_be_cancelled, st))
   \<and> (fst (cancelOrder st u oid) = Inr r
      \<longrightarrow> cancelOrder (snd (cancelOrder st u oid)) u' oid
            = (Inl Order_cannot_be_cancelled, snd (cancelOrder st u oid)))
   \<and> (Order_findById oid (orders st) = Some ord \<and> cancellable ord \<and> may_cancel u ord
      \<longrightarrow> fst (cancelOrder st u oid) = Inr (ord\<lparr>order_status := ''cancelled''\<rparr>)
          \<and> products (snd (cancelOrder st u oid))
              = restore_loop (products st) (order_orderItems ord))"
proof (intro conjI impI)
  assume "Order_findById oid (orders st) = Some ord \<and> order_status ord \<noteq> ''pending''
      \<and> order_status ord \<noteq> ''processing''"
  then show "cancelOrder st u oid = (Inl Order_cannot_be_cancelled, st)"
    by (simp add: cancelOrder_rejects cancellable_def)
next
  assume a: "fst (cancelOrder st u oid) = Inr r"
  from cancelOrder_stored[OF a]
  have "Order_findById oid (orders (snd (cancelOrder st u oid))) = Some r" "\<not> cancellable r"
    by (simp_all add: cancellable_def)
  then show "cancelOrder (snd (cancelOrder st u oid)) u' oid
            = (Inl Order_cannot_be_cancelled, snd (cancelOrder st u oid))"
    by (rule cancelOrder_rejects)
next
  assume a: "Order_findById oid (orders st) = Some ord \<and> cancellable ord \<and> may_cancel u ord"
  then show "fst (cancelOrder st u oid) = Inr (ord\<lparr>order_status := ''cancelled''\<rparr>)"
    by (simp add: cancelOrder_accepts)
  from a show "products (snd (cancelOrder st u oid))
              = restore_loop (products st) (order_orderItems ord)"
    by (simp add: cancelOrder_accepts)
qed

lemmas lifecycle_defs = status_of_def cancelOrder_def updateOrderToPaid_def
  updateOrderToDelivered_def updateOrderStatus_def truthy_def cancellable_def may_cancel_def
  shop_repaid_def

theorem cancelOrder_refused_when_not_cancellable_witness:
  "status_of shop_cancelled 500 = Some ''cancelled''
   \<and> cancelOrder shop_cancelled customer 500 = (Inl Order_cannot_be_cancelled, shop_cancelled)
   \<and> Order_findById 500 (orders shop_ordered) = Some (new_Order 500 100 [red3, plain3])
   \<and> cancellable (new_Order 500 100 [red3, plain3])
   \<and> may_cancel customer (new_Order 500 100 [red3, plain3])
   \<and> fst (cancelOrder shop_ordered customer 500)
       = Inr (new_Order 500 100 [red3, plain3]\<lparr>order_status := ''cancelled''\<rparr>)
   \<and> map product_stock (products shop_ordered) = [5, 1]
   \<and> map product_stock (products shop_cancelled) = [5, 4]
   \<and> products shop_cancelled = products shop"
  using cancelOrder_refused_when_not_cancellable
    [of 500 shop_cancelled "new_Order 500 100 [red3, plain3]\<lparr>order_status := ''cancelled''\<rparr>" customer]
    cancelOrder_refused_when_not_cancellable
    [of 500 shop_ordered "new_Order 500 100 [red3, plain3]" customer
      "new_Order 500 100 [red3, plain3]\<lparr>order_status := ''cancelled''\<rparr>" customer]
  by (simp add: ledger_defs shop_defs stock_ok_defs lifecycle_defs)

theorem cancelOrder_refused_when_not_cancellable_counterexample:
  "fst (cancelOrder shop_ordered customer 500)
     = Inr (new_Order 500 100 [red3, plain3]\<lparr>order_status := ''cancelled''\<rparr>)
   \<and> map product_stock (products shop) = [5, 4]
   \<and> counter_stock (products shop) (1, Some ''Red'') = Some 3
   \<and> products shop_cancelled = products shop
   \<and> status_of shop_cancelled 500 = Some ''cancelled''
   \<and> status_of shop_repaid 500 = Some ''processing''
   \<and> products shop_repaid = products shop
   \<and> map_sum id order_status (fst (cancelOrder shop_repaid customer 500)) = Inr ''cancelled''
   \<and> map product_stock (products (snd (cancelOrder shop_repaid customer 500))) = [5, 7]
   \<and> counter_stock (products (snd (cancelOrder shop_repaid customer 500))) (1, Some ''Red'')
       = Some 6"
  by (simp add: ledger_defs shop_defs stock_ok_defs lifecycle_defs)

subsection \<open>Order status\<close>












subsection \<open>The ancestor walk\<close>

lemma Category_findById_id: "Category_findById i cs = Some c \<Longrightarrow> category_id c = i"
  by (induction cs) (auto split: if_splits)

lemma Category_findById_set: "Category_findById i cs = Some c \<Longrightarrow> c \<in> set cs"
  by (induction cs) (auto split: if_splits)

lemma walk_None [simp]: "ancestor_walk cs t None = Some False"
  by (simp add: ancestor_walk.simps)

lemma walk_Some:
  "ancestor_walk cs t (Some a) =
     (if a = t then Some True else ancestor_walk cs t (parent_of cs a))"
  by (subst ancestor_walk.simps) simp

lemma walk_reachable:
  "(t, a) \<in> (parent_rel cs)\<^sup>* \<Longrightarrow> ancestor_walk cs t (Some a) = Some True"
proof (induction rule: rtrancl_induct)
  case base
  then show ?case by (simp add: walk_Some)
next
  case (step y z)
  then have "parent_of cs z = Some y" by (simp add: parent_rel_def)
  with step.IH show ?case by (simp add: walk_Some)
qed

lemma walk_True_reachable:
  assumes "ancestor_walk cs t p = Some r"
  shows "r \<longrightarrow> (\<exists>a. p = Some a \<and> (t, a) \<in> (parent_rel cs)\<^sup>*)"
proof (rule ancestor_walk.raw_induct
    [where P = "\<lambda>cs t p r. r \<longrightarrow> (\<exists>a. p = Some a \<and> (t, a) \<in> (parent_rel cs)\<^sup>*)", OF _ assms])
  fix walk cs t p r
  assume IH: "\<And>cs t p r. walk cs t p = Some r \<Longrightarrow>
                r \<longrightarrow> (\<exists>a. p = Some a \<and> (t, a) \<in> (parent_rel cs)\<^sup>*)"
    and eq: "(case p of None \<Rightarrow> Some False
              | Some a \<Rightarrow> if a = t then Some True else walk cs t (parent_of cs a)) = Some r"
  show "r \<longrightarrow> (\<exists>a. p = Some a \<and> (t, a) \<in> (parent_rel cs)\<^sup>*)"
  proof (cases p)
    case None
    with eq show ?thesis by auto
  next
    case (Some a)
    show ?thesis
    proof (cases "a = t")
      case True
      with Some show ?thesis by simp
    next
      case False
      with Some eq have w: "walk cs t (parent_of cs a) = Some r" by simp
      show ?thesis
      proof
        assume r
        with IH[OF w] obtain b where
          b: "parent_of cs a = Some b" "(t, b) \<in> (parent_rel cs)\<^sup>*"
          by blast
        then have "(b, a) \<in> parent_rel cs" by (simp add: parent_rel_def)
        with b(2) have "(t, a) \<in> (parent_rel cs)\<^sup>*" by (rule rtrancl_into_rtrancl)
        with Some show "\<exists>a. p = Some a \<and> (t, a) \<in> (parent_rel cs)\<^sup>*" by simp
      qed
    qed
  qed
qed

lemma walk_True_iff:
  "ancestor_walk cs t p = Some True \<longleftrightarrow> (\<exists>a. p = Some a \<and> (t, a) \<in> (parent_rel cs)\<^sup>*)"
  using walk_True_reachable[of cs t p True] walk_reachable[of t _ cs] by blast

lemma ancestors_parent:
  "t \<in> ancestors cs p \<longleftrightarrow> (\<exists>a. parent_of cs p = Some a \<and> (t, a) \<in> (parent_rel cs)\<^sup>*)"
proof
  assume "t \<in> ancestors cs p"
  then have "(t, p) \<in> (parent_rel cs)\<^sup>+" by (simp add: ancestors_def)
  then obtain a where "(t, a) \<in> (parent_rel cs)\<^sup>*" "(a, p) \<in> parent_rel cs"
    by (blast dest: tranclD2)
  then show "\<exists>a. parent_of cs p = Some a \<and> (t, a) \<in> (parent_rel cs)\<^sup>*"
    by (auto simp: parent_rel_def)
next
  assume "\<exists>a. parent_of cs p = Some a \<and> (t, a) \<in> (parent_rel cs)\<^sup>*"
  then obtain a where "(t, a) \<in> (parent_rel cs)\<^sup>*" "(a, p) \<in> parent_rel cs"
    by (auto simp: parent_rel_def)
  then have "(t, p) \<in> (parent_rel cs)\<^sup>+" by (rule rtrancl_into_trancl1)
  then show "t \<in> ancestors cs p" by (simp add: ancestors_def)
qed

lemma walk_ancestors:
  "ancestor_walk cs t (parent_of cs p) = Some True \<longleftrightarrow> t \<in> ancestors cs p"
  by (simp add: walk_True_iff ancestors_parent)

lemma ancestors_subset_parents:
  "ancestors cs a \<subseteq> (\<lambda>d. the (category_parent d)) ` set cs"
proof
  fix x assume "x \<in> ancestors cs a"
  then have "(x, a) \<in> (parent_rel cs)\<^sup>+" by (simp add: ancestors_def)
  then have "x \<in> Domain (parent_rel cs)" by (metis Domain.DomainI trancl_domain)
  then obtain y where "parent_of cs y = Some x" by (auto simp: parent_rel_def)
  then obtain d where "Category_findById y cs = Some d" "category_parent d = Some x"
    by (auto simp: parent_of_def split: option.splits)
  then have "d \<in> set cs" "the (category_parent d) = x"
    by (auto dest: Category_findById_set)
  then show "x \<in> (\<lambda>d. the (category_parent d)) ` set cs" by blast
qed

lemma finite_ancestors: "finite (ancestors cs a)"
  using ancestors_subset_parents by (rule finite_subset) simp

lemma card_ancestors: "card (ancestors cs a) \<le> length cs"
proof -
  have "card (ancestors cs a) \<le> card ((\<lambda>d. the (category_parent d)) ` set cs)"
    using ancestors_subset_parents by (intro card_mono) simp_all
  also have "\<dots> \<le> card (set cs)" by (rule card_image_le) simp
  also have "\<dots> \<le> length cs" by (rule card_length)
  finally show ?thesis .
qed

lemma ancestors_parent_less:
  assumes "acyclic (parent_rel cs)" "parent_of cs a = Some b"
  shows "card (ancestors cs b) < card (ancestors cs a)"
proof (rule psubset_card_mono[OF finite_ancestors])
  have e: "(b, a) \<in> parent_rel cs" using assms(2) by (simp add: parent_rel_def)
  have "ancestors cs b \<subseteq> ancestors cs a"
    using e by (auto simp: ancestors_def intro: trancl_into_trancl)
  moreover have "b \<in> ancestors cs a" using e by (simp add: ancestors_def r_into_trancl')
  moreover have "b \<notin> ancestors cs b" using assms(1) by (simp add: ancestors_def acyclic_def)
  ultimately show "ancestors cs b \<subset> ancestors cs a" by blast
qed

lemma walk_fuel_enough:
  assumes "acyclic (parent_rel cs)"
  shows "depth cs p \<le> n \<Longrightarrow> walk_fuel n cs t p \<noteq> None"
proof (induction n arbitrary: p)
  case 0
  then show ?case by (cases p) (simp_all add: depth_def)
next
  case (Suc n)
  show ?case
  proof (cases p)
    case None
    then show ?thesis by simp
  next
    case (Some a)
    have "depth cs (parent_of cs a) \<le> n"
    proof (cases "parent_of cs a")
      case None
      then show ?thesis by (simp add: depth_def)
    next
      case (Some b)
      with ancestors_parent_less[OF assms Some] Suc.prems \<open>p = Some a\<close>
      show ?thesis by (simp add: depth_def)
    qed
    from Suc.IH[OF this] Some show ?thesis by auto
  qed
qed

lemma walk_fuel_sound: "walk_fuel n cs t p = Some r \<Longrightarrow> ancestor_walk cs t p = Some r"
proof (induction n arbitrary: p)
  case 0
  then show ?case by (cases p) (auto simp: walk_Some split: if_splits)
next
  case (Suc n)
  then show ?case by (cases p) (auto simp: walk_Some split: if_splits)
qed

lemma walk_terminates:
  assumes "acyclic (parent_rel cs)"
  shows "\<exists>r. ancestor_walk cs target parentId = Some r
           \<and> walk_fuel (depth cs parentId) cs target parentId = Some r"
proof -
  from walk_fuel_enough[OF assms, of parentId "depth cs parentId" target]
  obtain r where f: "walk_fuel (depth cs parentId) cs target parentId = Some r" by auto
  then have "ancestor_walk cs target parentId = Some r" by (rule walk_fuel_sound)
  with f show ?thesis by blast
qed

lemma updateCategory_returns:
  assumes "acyclic (parent_rel (categories st))"
  shows "\<exists>res. updateCategory st cid parent = Some res"
proof (cases "Category_findById cid (categories st)")
  case None
  then show ?thesis by (simp add: updateCategory_def)
next
  case (Some c)
  show ?thesis
  proof (cases parent)
    case Undefined
    then show ?thesis using Some by (simp add: updateCategory_def Let_def)
  next
    case Null
    then show ?thesis using Some by (simp add: updateCategory_def Let_def)
  next
    case (Str s)
    show ?thesis
    proof (cases "cast_id s")
      case None
      then show ?thesis using Some Str by (simp add: updateCategory_def Let_def)
    next
      case p: (Some p)
      from walk_terminates[OF assms, of "category_id c" "parent_of (categories st) p"]
      obtain r where
        "ancestor_walk (categories st) (category_id c) (parent_of (categories st) p) = Some r"
        by blast
      then show ?thesis using Some Str p
        by (cases r) (simp_all add: updateCategory_def Let_def)
    qed
  qed
qed

text \<open>
  Claim C8. When the parent references of the stored categories form no cycle,
  \<open>updateCategory\<close> returns, whatever category and whatever parent it is given: the walk
  it makes ends. From whatever parent the walk starts and for whatever target, it
  leaves the loop at a \<open>null\<close> parent (\<open>False\<close>) or at the target id (\<open>True\<close>, exactly
  when the target is the start or one of its ancestors). It makes at most one hop more
  than the start has ancestors, which is at most one hop more than there are
  categories.
\<close>

theorem ancestor_walk_terminates:
  assumes "acyclic (parent_rel (categories st))"
  shows "(\<exists>res. updateCategory st cid parent = Some res)
       \<and> (\<exists>r. ancestor_walk (categories st) target parentId = Some r
            \<and> walk_fuel (depth (categories st) parentId) (categories st) target parentId = Some r
            \<and> depth (categories st) parentId \<le> Suc (length (categories st))
            \<and> (r \<longleftrightarrow> (\<exists>a. parentId = Some a \<and> (target, a) \<in> (parent_rel (categories st))\<^sup>*)))"
proof
  show "\<exists>res. updateCategory st cid parent = Some res"
    using assms by (rule updateCategory_returns)
  from walk_terminates[OF assms, of target parentId] obtain r where
    w: "ancestor_walk (categories st) target parentId = Some r"
    and f: "walk_fuel (depth (categories st) parentId) (categories st) target parentId = Some r"
    by blast
  have d: "depth (categories st) parentId \<le> Suc (length (categories st))"
    by (cases parentId) (simp_all add: depth_def card_ancestors)
  have "r \<longleftrightarrow> (\<exists>a. parentId = Some a \<and> (target, a) \<in> (parent_rel (categories st))\<^sup>*)"
    using w walk_True_iff[of "categories st" target parentId] by auto
  with f w d show "\<exists>r. ancestor_walk (categories st) target parentId = Some r
            \<and> walk_fuel (depth (categories st) parentId) (categories st) target parentId = Some r
            \<and> depth (categories st) parentId \<le> Suc (length (categories st))
            \<and> (r \<longleftrightarrow> (\<exists>a. parentId = Some a \<and> (target, a) \<in> (parent_rel (categories st))\<^sup>*))"
    by blast
qed

lemma shop_acyclic: "acyclic (parent_rel (categories shop))"
  by (rule acyclicI_order[where f = "\<lambda>x. 100 - x"])
     (auto simp: parent_rel_def parent_of_def shop_def split: if_splits option.splits)

lemmas category_defs = updateCategory_def deleteCategory_def parent_of_def walk_Some
  hierarchy_error_def Category_exists_parent_def Product_exists_category_def toString_def

theorem ancestor_walk_terminates_witness:
  "acyclic (parent_rel (categories shop))
   \<and> updateCategory shop 13 (Str (Canonical 12))
       = Some (Inr \<lparr>category_id = 13, category_parent = Some 12\<rparr>,
               shop\<lparr>categories := Category_save \<lparr>category_id = 13, category_parent = Some 12\<rparr>
                                     (categories shop)\<rparr>)
   \<and> updateCategory shop 10 (Str (Canonical 12)) = Some (Inl Circular_reference, shop)
   \<and> ancestor_walk (categories shop) 13 (Some 12) = Some False
   \<and> ancestor_walk (categories shop) 10 (Some 12) = Some True"
  using shop_acyclic ancestor_walk_terminates[OF shop_acyclic, of 13 "Str (Canonical 12)" 13 "Some 12"]
  by (simp add: category_defs shop_def Let_def)

subsection \<open>updateCategory\<close>

lemma updateCategory_hierarchy_error:
  assumes "Category_findById cid (categories st) = Some c"
  shows "hierarchy_error (updateCategory st cid (Str s))
           \<longleftrightarrow> (s = Canonical cid \<or> (\<exists>p. cast_id s = Some p \<and> cid \<in> ancestors (categories st) p))"
proof -
  have id: "category_id c = cid" using assms by (rule Category_findById_id)
  show ?thesis
  proof (cases "s = Canonical cid")
    case True
    then show ?thesis
      by (simp add: updateCategory_def assms id hierarchy_error_def Let_def toString_def)
  next
    case False
    show ?thesis
    proof (cases "cast_id s")
      case None
      then show ?thesis using False
        by (simp add: updateCategory_def assms id hierarchy_error_def Let_def toString_def)
    next
      case (Some p)
      show ?thesis
      proof (cases "ancestor_walk (categories st) cid (parent_of (categories st) p)")
        case None
        then have "cid \<notin> ancestors (categories st) p"
          using walk_ancestors[of "categories st" cid p] by simp
        then show ?thesis using None False Some
          by (simp add: updateCategory_def assms id hierarchy_error_def Let_def toString_def)
      next
        case r: (Some r)
        then have "r \<longleftrightarrow> cid \<in> ancestors (categories st) p"
          using walk_ancestors[of "categories st" cid p] by auto
        then show ?thesis using r False Some
          by (cases r)
             (simp_all add: updateCategory_def assms id hierarchy_error_def Let_def toString_def)
      qed
    qed
  qed
qed

lemma updateCategory_canonical:
  assumes "Category_findById cid (categories st) = Some c"
  shows "hierarchy_error (updateCategory st cid (Str (Canonical p)))
           \<longleftrightarrow> (p = cid \<or> cid \<in> ancestors (categories st) p)"
  using updateCategory_hierarchy_error[OF assms, of "Canonical p"] by simp

lemma updateCategory_respelled:
  assumes "Category_findById cid (categories st) = Some c"
  shows "hierarchy_error (updateCategory st cid (Str (Respelled p)))
           \<longleftrightarrow> cid \<in> ancestors (categories st) p"
  using updateCategory_hierarchy_error[OF assms, of "Respelled p"] by simp

lemma updateCategory_chain:
  assumes "Category_findById cid (categories st) = Some c"
    and "cast_id s = Some x"
    and "parent_of (categories st) x = Some b" "parent_of (categories st) b = Some cid"
  shows "hierarchy_error (updateCategory st cid (Str s))"
proof -
  have "(cid, b) \<in> parent_rel (categories st)" "(b, x) \<in> parent_rel (categories st)"
    using assms(3,4) by (simp_all add: parent_rel_def)
  then have "(cid, x) \<in> (parent_rel (categories st))\<^sup>+" by (meson trancl.simps)
  then have "cid \<in> ancestors (categories st) x" by (simp add: ancestors_def)
  then show ?thesis
    using updateCategory_hierarchy_error[OF assms(1), of s] assms(2) by simp
qed

text \<open>
  Claim C5, at the input where the code departs from it. Category 13 of the example
  store is a root. Proposed as its own parent by the string that its id prints as, it
  is refused with the own-parent error. Proposed as its own parent by another spelling
  of the same id, it passes the string comparison of the own-parent test, the lookup
  finds the category itself, the walk over its ancestors meets nothing, and it is saved
  with itself as parent: no hierarchy error is thrown.
\<close>

theorem updateCategory_own_parent_respelled:
  "updateCategory shop 13 (Str (Canonical 13)) = Some (Inl Category_own_parent, shop)
   \<and> cast_id (Respelled 13) = cast_id (Canonical 13)
   \<and> updateCategory shop 13 (Str (Respelled 13))
       = Some (Inr \<lparr>category_id = 13, category_parent = Some 13\<rparr>,
               shop\<lparr>categories := Category_save \<lparr>category_id = 13, category_parent = Some 13\<rparr>
                                     (categories shop)\<rparr>)
   \<and> parent_of (Category_save \<lparr>category_id = 13, category_parent = Some 13\<rparr> (categories shop)) 13
       = Some 13
   \<and> \<not> hierarchy_error (updateCategory shop 13 (Str (Respelled 13)))"
  by (simp add: category_defs shop_def Let_def)

lemma Category_findById_save:
  "Category_findById (category_id x) (Category_save x cs) = Some x"
  by (induction cs) auto

text \<open>
  Claim C10. For a stored category, \<open>updateCategory\<close> with a proposed parent id that no
  stored category has, in whatever spelling, succeeds: the lookup of the parent gives
  \<open>null\<close>, the loop is not entered, and the category is saved with the dangling id as
  its parent.
\<close>

theorem updateCategory_dangling_parent:
  assumes "Category_findById cid (categories st) = Some c"
    and "cast_id s = Some p"
    and "Category_findById p (categories st) = None"
  shows "updateCategory st cid (Str s) =
           Some (Inr (c\<lparr>category_parent := Some p\<rparr>),
                 st\<lparr>categories := Category_save (c\<lparr>category_parent := Some p\<rparr>) (categories st)\<rparr>)
       \<and> Category_findById cid (Category_save (c\<lparr>category_parent := Some p\<rparr>) (categories st))
           = Some (c\<lparr>category_parent := Some p\<rparr>)"
proof -
  have id: "category_id c = cid" using assms(1) by (rule Category_findById_id)
  then have "p \<noteq> category_id c" using assms(1,3) by auto
  then have ne: "s \<noteq> toString (category_id c)" using assms(2) by (auto simp: toString_def)
  have "category_id (c\<lparr>category_parent := Some p\<rparr>) = cid" using id by simp
  then have "Category_findById cid (Category_save (c\<lparr>category_parent := Some p\<rparr>) (categories st))
           = Some (c\<lparr>category_parent := Some p\<rparr>)"
    using Category_findById_save[of "c\<lparr>category_parent := Some p\<rparr>" "categories st"] by simp
  then show ?thesis
    using ne by (simp add: updateCategory_def assms parent_of_def Let_def)
qed

theorem updateCategory_dangling_parent_witness:
  "Category_findById 99 (categories shop) = None
   \<and> map_option fst (updateCategory shop 13 (Str (Canonical 99)))
       = Some (Inr \<lparr>category_id = 13, category_parent = Some 99\<rparr>)
   \<and> map_option (\<lambda>r. parent_of (categories (snd r)) 13) (updateCategory shop 13 (Str (Canonical 99)))
       = Some (Some 99)
   \<and> map_option fst (updateCategory shop 13 (Str (Respelled 99)))
       = Some (Inr \<lparr>category_id = 13, category_parent = Some 99\<rparr>)"
  using updateCategory_dangling_parent
      [of 13 shop "\<lparr>category_id = 13, category_parent = None\<rparr>" "Canonical 99" 99]
    updateCategory_dangling_parent
      [of 13 shop "\<lparr>category_id = 13, category_parent = None\<rparr>" "Respelled 99" 99]
  by (simp add: category_defs shop_def Let_def)

subsection \<open>deleteCategory\<close>

lemma Category_remove_length:
  "Category_findById i cs = Some c \<Longrightarrow> Suc (length (Category_remove c cs)) = length cs"
proof (induction cs)
  case Nil
  then show ?case by simp
next
  case (Cons d ds)
  show ?case
  proof (cases "category_id d = i")
    case True
    with Cons.prems show ?thesis by simp
  next
    case False
    with Cons.prems have f: "Category_findById i ds = Some c" by simp
    then have "category_id c = i" by (rule Category_findById_id)
    with False Cons.IH[OF f] show ?thesis by simp
  qed
qed

lemma Category_findById_None: "i \<notin> category_id ` set cs \<Longrightarrow> Category_findById i cs = None"
  by (induction cs) auto

lemma Category_remove_gone:
  "distinct (map category_id cs) \<Longrightarrow> Category_findById (category_id c) (Category_remove c cs) = None"
  by (induction cs) (auto simp: Category_findById_None)

text \<open>
  Claim C6. For a stored category, \<open>deleteCategory\<close> fails with the subcategories error
  whenever some stored category has it as parent, whether or not products refer to it;
  when none has and some product refers to it, it fails with the products error; when
  neither holds it succeeds and removes the category document, after which, ids being
  unique, no category has the id.
\<close>

theorem deleteCategory_guard:
  assumes "Category_findById cid (categories st) = Some c"
  shows "((\<exists>d \<in> set (categories st). category_parent d = Some cid)
            \<longrightarrow> deleteCategory st cid = (Inl Has_subcategories, st))
       \<and> ((\<forall>d \<in> set (categories st). category_parent d \<noteq> Some cid)
            \<and> (\<exists>q \<in> set (products st). product_category q = cid)
            \<longrightarrow> deleteCategory st cid = (Inl Has_products, st))
       \<and> ((\<forall>d \<in> set (categories st). category_parent d \<noteq> Some cid)
            \<and> (\<forall>q \<in> set (products st). product_category q \<noteq> cid)
            \<longrightarrow> deleteCategory st cid
                  = (Inr (), st\<lparr>categories := Category_remove c (categories st)\<rparr>)
                \<and> Suc (length (Category_remove c (categories st))) = length (categories st)
                \<and> (distinct (map category_id (categories st))
                     \<longrightarrow> Category_findById cid (Category_remove c (categories st)) = None))"
proof -
  have id: "category_id c = cid" using assms by (rule Category_findById_id)
  have gone: "distinct (map category_id (categories st))
                \<longrightarrow> Category_findById cid (Category_remove c (categories st)) = None"
    using Category_remove_gone[of "categories st" c] id by simp
  show ?thesis
    using gone Category_remove_length[OF assms]
    by (auto simp: deleteCategory_def assms id Category_exists_parent_def
        Product_exists_category_def list_ex_iff)
qed

theorem deleteCategory_guard_witness:
  "deleteCategory shop 10 = (Inl Has_subcategories, shop)
   \<and> Product_exists_category 10 (products shop)
   \<and> deleteCategory shop 12 = (Inl Has_products, shop)
   \<and> fst (deleteCategory shop 13) = Inr ()
   \<and> Category_findById 13 (categories (snd (deleteCategory shop 13))) = None"
  using deleteCategory_guard[of 10 shop "\<lparr>category_id = 10, category_parent = None\<rparr>"]
    deleteCategory_guard[of 12 shop "\<lparr>category_id = 12, category_parent = Some 11\<rparr>"]
    deleteCategory_guard[of 13 shop "\<lparr>category_id = 13, category_parent = None\<rparr>"]
  by (simp add: category_defs shop_def)

end
